theory Spec2Isabelle
  imports Complex_Main "HOL-Library.Word"
begin

unbundle bit_operations_syntax

section \<open>Python values and exceptions\<close>

text \<open>
  The embedding follows \<^verbatim>\<open>image_processing/canvas.py\<close> and
  \<^verbatim>\<open>image_processing/png_writer.py\<close>.  Python integers are \<^typ>\<open>int\<close>, the elements
  of \<^verbatim>\<open>bytes\<close> and \<^verbatim>\<open>bytearray\<close> objects are 8-bit words, and the value of
  a Python float is a rational number.  Exceptions are values of \<open>py_error\<close>; one
  constructor per place the source (or the library function it calls) can raise.
\<close>

type_synonym byte = "8 word"

datatype py_error =
    ValueError_channel_range       \<comment> \<open>\<^verbatim>\<open>RgbaColor.__init__\<close>: channel outside 0..1\<close>
  | ValueError_out_of_bounds       \<comment> \<open>"x or y coordinates out of bounds."\<close>
  | ValueError_negative_size       \<comment> \<open>"Width and height must be positive."\<close>
  | ValueError_rect_does_not_fit   \<comment> \<open>"The rectangle does not fit into the image."\<close>
  | ValueError_size_mismatch       \<comment> \<open>"Passed data object does not contain ... pixels."\<close>
  | ValueError_range_step_zero     \<comment> \<open>\<^verbatim>\<open>range()\<close> called with step 0\<close>
  | ValueError_negative_count      \<comment> \<open>\<^verbatim>\<open>bytearray(n)\<close> with negative n\<close>
  | ZeroDivisionError
  | IndexError
  | StructError                    \<comment> \<open>\<^verbatim>\<open>struct.error\<close> of pack and unpack_from\<close>
  | TypeError_reduce_empty         \<comment> \<open>\<^verbatim>\<open>reduce()\<close> of an empty sequence with no initial value\<close>

definition bindE :: "py_error + 'a \<Rightarrow> ('a \<Rightarrow> py_error + 'b) \<Rightarrow> py_error + 'b" where
  "bindE m f = (case m of Inl e \<Rightarrow> Inl e | Inr v \<Rightarrow> f v)"

text \<open>
  A \<^verbatim>\<open>for\<close> loop whose body may raise.  The loop state is returned together with the
  exception that ended the loop, if any: an object mutated in place keeps the changes
  made before the exception.  Every loop body modelled below raises, if at all, before
  its first assignment to the state, so the state at the exception is the state before
  that iteration.
\<close>

fun for_loop :: "('x \<Rightarrow> 's \<Rightarrow> py_error + 's) \<Rightarrow> 'x list \<Rightarrow> 's \<Rightarrow> 's \<times> py_error option" where
  "for_loop body [] s = (s, None)"
| "for_loop body (x # xs) s =
     (case body x s of Inl e \<Rightarrow> (s, Some e) | Inr s' \<Rightarrow> for_loop body xs s')"

text \<open>The same loop where the state is local and lost when the exception propagates.\<close>

definition for_each :: "('x \<Rightarrow> 's \<Rightarrow> py_error + 's) \<Rightarrow> 'x list \<Rightarrow> 's \<Rightarrow> py_error + 's" where
  "for_each body xs s = (case for_loop body xs s of (s', None) \<Rightarrow> Inr s' | (s', Some e) \<Rightarrow> Inl e)"

text \<open>\<^verbatim>\<open>range(n)\<close> and \<^verbatim>\<open>range(start, stop, step)\<close>.\<close>

definition py_range :: "int \<Rightarrow> int list" where
  "py_range n = map int [0..<nat n]"

definition py_range3 :: "int \<Rightarrow> int \<Rightarrow> int \<Rightarrow> py_error + int list" where
  "py_range3 start stop step =
     (if step = 0 then Inl ValueError_range_step_zero
      else if step > 0
        then Inr (map (\<lambda>k. start + int k * step) [0..<nat ((stop - start + step - 1) div step)])
        else Inr (map (\<lambda>k. start + int k * step) [0..<nat ((start - stop - step - 1) div (- step))]))"

text \<open>\<^verbatim>\<open>xs[i]\<close>, \<^verbatim>\<open>xs[i] = v\<close> and \<^verbatim>\<open>xs[i:j]\<close> with Python's treatment of negative
  and out-of-range positions.\<close>

definition py_getitem :: "'a list \<Rightarrow> int \<Rightarrow> py_error + 'a" where
  "py_getitem xs i =
     (let n = int (length xs); k = (if i < 0 then i + n else i)
      in if k < 0 \<or> n \<le> k then Inl IndexError else Inr (xs ! nat k))"

definition py_setitem :: "'a list \<Rightarrow> int \<Rightarrow> 'a \<Rightarrow> py_error + 'a list" where
  "py_setitem xs i v =
     (let n = int (length xs); k = (if i < 0 then i + n else i)
      in if k < 0 \<or> n \<le> k then Inl IndexError else Inr (xs[nat k := v]))"

definition py_slice :: "'a list \<Rightarrow> int \<Rightarrow> int \<Rightarrow> 'a list" where
  "py_slice xs i j =
     (let n = int (length xs);
          lo = (if i < 0 then max 0 (i + n) else min i n);
          hi = (if j < 0 then max 0 (j + n) else min j n)
      in take (nat (hi - lo)) (drop (nat lo) xs))"

section \<open>Colours and canvases (\<^verbatim>\<open>canvas.py\<close>)\<close>

text \<open>The fields \<^verbatim>\<open>r\<close>, \<^verbatim>\<open>g\<close>, \<^verbatim>\<open>b\<close>, \<^verbatim>\<open>a\<close> of \<^verbatim>\<open>RgbaColor\<close> carry the prefix
  \<open>col_\<close>, since a record field is a constant of the theory.\<close>

record rgba =
  col_r :: rat
  col_g :: rat
  col_b :: rat
  col_a :: rat

definition RgbaColor :: "rat \<Rightarrow> rat \<Rightarrow> rat \<Rightarrow> rat \<Rightarrow> py_error + rgba" where
  "RgbaColor r g b a =
     (if r < 0 \<or> r > 1 then Inl ValueError_channel_range
      else if g < 0 \<or> g > 1 then Inl ValueError_channel_range
      else if b < 0 \<or> b > 1 then Inl ValueError_channel_range
      else if a < 0 \<or> a > 1 then Inl ValueError_channel_range
      else Inr \<lparr>col_r = r, col_g = g, col_b = b, col_a = a\<rparr>)"

text \<open>
  Arithmetic on floats.  Each operation of IEEE arithmetic gives the exact result
  rounded to a double, and a decimal literal denotes the double nearest to it.  The
  rounding function is a parameter \<open>rnd\<close> of the functions that compute with channel
  values (\<open>fl_blend\<close>, \<open>bytes\<close>); of rounding to nearest it is used only that it is
  monotone, that it leaves a double as it is, and that 0, 1/2, 1 and 255 are doubles.
  \<open>blend\<close> below is \<^verbatim>\<open>Canvas.blend\<close> in exact arithmetic: no rounding, and the
  literals at their decimal value.
\<close>

definition rounding :: "(rat \<Rightarrow> rat) \<Rightarrow> bool" where
  "rounding rnd \<longleftrightarrow>
     mono rnd \<and> (\<forall>x. rnd (rnd x) = rnd x) \<and> rnd 0 = 0 \<and> rnd (1 / 2) = 1 / 2 \<and> rnd 1 = 1 \<and> rnd 255 = 255"

text \<open>
  A canvas holds its pixels by value: \<^verbatim>\<open>clear\<close>, \<^verbatim>\<open>copy\<close>, \<^verbatim>\<open>rect\<close> and the import
  methods store a fresh colour object in every cell, so no two cells of a canvas, and
  no cell and a background colour, are the same object.  A source canvas passed to
  \<^verbatim>\<open>blend\<close> is a canvas other than the destination.
\<close>

record Canvas =
  width :: int
  height :: int
  bgcolor :: rgba
  canvas :: "rgba list"

definition clear :: "Canvas \<Rightarrow> Canvas" where
  "clear self = self\<lparr>canvas := map (\<lambda>_. bgcolor self) (py_range (width self * height self))\<rparr>"

definition Canvas_init :: "int \<Rightarrow> int \<Rightarrow> rgba \<Rightarrow> Canvas" where
  "Canvas_init w h bg = clear \<lparr>width = w, height = h, bgcolor = bg, canvas = []\<rparr>"

definition copy_canvas :: "Canvas \<Rightarrow> Canvas" where
  "copy_canvas self =
     (Canvas_init (width self) (height self) (bgcolor self))\<lparr>canvas := map (\<lambda>color. color) (canvas self)\<rparr>"

definition coordinate_to_index :: "Canvas \<Rightarrow> int \<Rightarrow> int \<Rightarrow> py_error + int" where
  "coordinate_to_index self x y =
     (if x < 0 \<or> x > width self - 1 \<or> y < 0 \<or> y > height self - 1
      then Inl ValueError_out_of_bounds
      else Inr (x + width self * y))"

text \<open>\<^verbatim>\<open>Canvas.at\<close>; the name \<open>at\<close> is taken by the library's filters.\<close>

definition canvas_at :: "Canvas \<Rightarrow> int \<Rightarrow> int \<Rightarrow> py_error + rgba" where
  "canvas_at self x y = bindE (coordinate_to_index self x y) (py_getitem (canvas self))"

definition rect_body :: "Canvas \<Rightarrow> int \<Rightarrow> int \<Rightarrow> int \<Rightarrow> int \<Rightarrow> int \<Rightarrow> rgba list \<Rightarrow> py_error + rgba list" where
  "rect_body self x y w target_y target_x cv =
     bindE (canvas_at self (x + target_x) (y + target_y)) (\<lambda>color.
       py_setitem cv (target_y * w + target_x) color)"

definition rect :: "Canvas \<Rightarrow> int \<Rightarrow> int \<Rightarrow> int \<Rightarrow> int \<Rightarrow> py_error + Canvas" where
  "rect self x y w h =
     (if x < 0 \<or> x > width self - 1 \<or> y < 0 \<or> y > height self - 1
        then Inl ValueError_out_of_bounds
      else if w < 0 \<or> h < 0
        then Inl ValueError_negative_size
      else if x + w > width self \<or> y + h > height self
        then Inl ValueError_rect_does_not_fit
      else
        let r0 = Canvas_init w h (bgcolor self) in
        bindE (for_each
                 (\<lambda>target_y. for_each (rect_body self x y w target_y) (py_range w))
                 (py_range h) (canvas r0))
              (\<lambda>cv. Inr (r0\<lparr>canvas := cv\<rparr>)))"

text \<open>Lines 122 to 135 of \<^verbatim>\<open>blend\<close>: the new value of one destination pixel.  The
  division raises before any channel of the destination is assigned.\<close>

definition blend_pixel :: "bool \<Rightarrow> rgba \<Rightarrow> rgba \<Rightarrow> py_error + rgba" where
  "blend_pixel ignore_src_alpha src_color dst_color =
     (if ignore_src_alpha \<or> col_a src_color \<ge> 999999 / 1000000
      then Inr (dst_color\<lparr>col_r := col_r src_color, col_g := col_g src_color,
                          col_b := col_b src_color, col_a := col_a src_color\<rparr>)
      else
        let new_alpha = col_a src_color + col_a dst_color * (1 - col_a src_color) in
        if new_alpha = 0 then Inl ZeroDivisionError
        else
          let d = dst_color\<lparr>
                col_r := (col_r src_color * col_a src_color
                          + col_r dst_color * col_a dst_color * (1 - col_a src_color)) / new_alpha,
                col_g := (col_g src_color * col_a src_color
                          + col_g dst_color * col_a dst_color * (1 - col_a src_color)) / new_alpha,
                col_b := (col_b src_color * col_a src_color
                          + col_b dst_color * col_a dst_color * (1 - col_a src_color)) / new_alpha,
                col_a := new_alpha\<rparr>
          in if col_a d < 1 / 1000000
             then Inr (d\<lparr>col_r := 0, col_g := 0, col_b := 0, col_a := 0\<rparr>)
             else Inr d)"

definition blend_body :: "Canvas \<Rightarrow> int \<Rightarrow> int \<Rightarrow> int \<Rightarrow> bool \<Rightarrow> nat \<times> rgba \<Rightarrow> rgba list \<Rightarrow> py_error + rgba list" where
  "blend_body self src_width offset_x offset_y ignore_src_alpha = (\<lambda>(i, src_color) cv.
     if src_width = 0 then Inl ZeroDivisionError
     else
       let src_x = int i mod src_width; src_y = int i div src_width;
           target_x = offset_x + src_x;
           target_y = offset_y + src_y
       in if target_x < 0 \<or> target_x > width self - 1 \<or> target_y < 0 \<or> target_y > height self - 1
          then Inr cv
          else
            bindE (py_getitem cv (target_y * width self + target_x)) (\<lambda>dst_color.
            bindE (blend_pixel ignore_src_alpha src_color dst_color) (\<lambda>c.
              py_setitem cv (target_y * width self + target_x) c)))"

definition blend :: "Canvas \<Rightarrow> Canvas \<Rightarrow> int \<Rightarrow> int \<Rightarrow> bool \<Rightarrow> Canvas \<times> py_error option" where
  "blend self src offset_x offset_y ignore_src_alpha =
     (case for_loop (blend_body self (width src) offset_x offset_y ignore_src_alpha)
             (enumerate 0 (canvas src)) (canvas self)
      of (cv, e) \<Rightarrow> (self\<lparr>canvas := cv\<rparr>, e))"

text \<open>\<^verbatim>\<open>Canvas.blend\<close> in floating-point arithmetic: the same statements, each
  operation followed by rounding, in the order in which Python evaluates them.\<close>

definition fl_blend_pixel :: "(rat \<Rightarrow> rat) \<Rightarrow> bool \<Rightarrow> rgba \<Rightarrow> rgba \<Rightarrow> py_error + rgba" where
  "fl_blend_pixel rnd ignore_src_alpha src_color dst_color =
     (if ignore_src_alpha \<or> col_a src_color \<ge> rnd (999999 / 1000000)
      then Inr (dst_color\<lparr>col_r := col_r src_color, col_g := col_g src_color,
                          col_b := col_b src_color, col_a := col_a src_color\<rparr>)
      else
        let new_alpha = rnd (col_a src_color + rnd (col_a dst_color * rnd (1 - col_a src_color))) in
        if new_alpha = 0 then Inl ZeroDivisionError
        else
          let d = dst_color\<lparr>
                col_r := rnd (rnd (rnd (col_r src_color * col_a src_color)
                          + rnd (rnd (col_r dst_color * col_a dst_color) * rnd (1 - col_a src_color)))
                          / new_alpha),
                col_g := rnd (rnd (rnd (col_g src_color * col_a src_color)
                          + rnd (rnd (col_g dst_color * col_a dst_color) * rnd (1 - col_a src_color)))
                          / new_alpha),
                col_b := rnd (rnd (rnd (col_b src_color * col_a src_color)
                          + rnd (rnd (col_b dst_color * col_a dst_color) * rnd (1 - col_a src_color)))
                          / new_alpha),
                col_a := new_alpha\<rparr>
          in if col_a d < rnd (1 / 1000000)
             then Inr (d\<lparr>col_r := 0, col_g := 0, col_b := 0, col_a := 0\<rparr>)
             else Inr d)"

definition fl_blend_body :: "(rat \<Rightarrow> rat) \<Rightarrow> Canvas \<Rightarrow> int \<Rightarrow> int \<Rightarrow> int \<Rightarrow> bool \<Rightarrow> nat \<times> rgba \<Rightarrow> rgba list \<Rightarrow> py_error + rgba list" where
  "fl_blend_body rnd self src_width offset_x offset_y ignore_src_alpha = (\<lambda>(i, src_color) cv.
     if src_width = 0 then Inl ZeroDivisionError
     else
       let src_x = int i mod src_width; src_y = int i div src_width;
           target_x = offset_x + src_x;
           target_y = offset_y + src_y
       in if target_x < 0 \<or> target_x > width self - 1 \<or> target_y < 0 \<or> target_y > height self - 1
          then Inr cv
          else
            bindE (py_getitem cv (target_y * width self + target_x)) (\<lambda>dst_color.
            bindE (fl_blend_pixel rnd ignore_src_alpha src_color dst_color) (\<lambda>c.
              py_setitem cv (target_y * width self + target_x) c)))"

definition fl_blend :: "(rat \<Rightarrow> rat) \<Rightarrow> Canvas \<Rightarrow> Canvas \<Rightarrow> int \<Rightarrow> int \<Rightarrow> bool \<Rightarrow> Canvas \<times> py_error option" where
  "fl_blend rnd self src offset_x offset_y ignore_src_alpha =
     (case for_loop (fl_blend_body rnd self (width src) offset_x offset_y ignore_src_alpha)
             (enumerate 0 (canvas src)) (canvas self)
      of (cv, e) \<Rightarrow> (self\<lparr>canvas := cv\<rparr>, e))"

text \<open>\<^verbatim>\<open>pack("!3B", r, g, b)\<close> and the \<^verbatim>\<open>unpack_from\<close> calls of the import methods.\<close>

definition pack_3B :: "int \<Rightarrow> int \<Rightarrow> int \<Rightarrow> py_error + byte list" where
  "pack_3B x y z =
     (if 0 \<le> x \<and> x \<le> 255 \<and> 0 \<le> y \<and> y \<le> 255 \<and> 0 \<le> z \<and> z \<le> 255
      then Inr [word_of_int x, word_of_int y, word_of_int z]
      else Inl StructError)"

definition unpack_from :: "nat \<Rightarrow> byte list \<Rightarrow> int \<Rightarrow> py_error + int list" where
  "unpack_from n data i =
     (let len = int (length data); k = (if i < 0 then i + len else i)
      in if k < 0 \<or> len - k < int n then Inl StructError
         else Inr (map uint (take n (drop (nat k) data))))"

definition bytes_body :: "(rat \<Rightarrow> rat) \<Rightarrow> Canvas \<Rightarrow> nat \<times> rgba \<Rightarrow> byte list \<Rightarrow> py_error + byte list" where
  "bytes_body rnd self = (\<lambda>(i, color) data.
     bindE (if col_a color \<ge> rnd (999 / 1000)
            then pack_3B \<lfloor>rnd (col_r color * 255)\<rfloor> \<lfloor>rnd (col_g color * 255)\<rfloor>
                   \<lfloor>rnd (col_b color * 255)\<rfloor>
            else pack_3B
                   \<lfloor>rnd (rnd (rnd (col_r color * col_a color)
                      + rnd (col_r (bgcolor self) * rnd (1 - col_a color))) * 255)\<rfloor>
                   \<lfloor>rnd (rnd (rnd (col_g color * col_a color)
                      + rnd (col_g (bgcolor self) * rnd (1 - col_a color))) * 255)\<rfloor>
                   \<lfloor>rnd (rnd (rnd (col_b color * col_a color)
                      + rnd (col_b (bgcolor self) * rnd (1 - col_a color))) * 255)\<rfloor>)
       (\<lambda>t. Inr (take (i * 3) data @ t @ drop (i * 3 + 3) data)))"

definition bytes :: "(rat \<Rightarrow> rat) \<Rightarrow> Canvas \<Rightarrow> py_error + byte list" where
  "bytes rnd self =
     (if width self * height self * 3 < 0 then Inl ValueError_negative_count
      else for_each (bytes_body rnd self) (enumerate 0 (canvas self))
             (replicate (nat (width self * height self * 3)) 0))"

definition import_rgb_body :: "byte list \<Rightarrow> int \<Rightarrow> rgba list \<Rightarrow> py_error + rgba list" where
  "import_rgb_body data i cv =
     bindE (unpack_from 3 data i) (\<lambda>v.
     bindE (RgbaColor (of_int (v ! 0) / 255) (of_int (v ! 1) / 255) (of_int (v ! 2) / 255) 1) (\<lambda>c.
       py_setitem cv (i div 3) c))"

definition import_rgb_data :: "Canvas \<Rightarrow> byte list \<Rightarrow> Canvas \<times> py_error option" where
  "import_rgb_data self data =
     (case py_range3 0 (int (length data)) 3 of
        Inl e \<Rightarrow> (self, Some e)
      | Inr is \<Rightarrow> (case for_loop (import_rgb_body data) is (canvas self)
                   of (cv, e) \<Rightarrow> (self\<lparr>canvas := cv\<rparr>, e)))"

definition import_rgba_body :: "byte list \<Rightarrow> int \<Rightarrow> rgba list \<Rightarrow> py_error + rgba list" where
  "import_rgba_body data i cv =
     bindE (unpack_from 4 data i) (\<lambda>v.
     bindE (RgbaColor (of_int (v ! 0) / 255) (of_int (v ! 1) / 255) (of_int (v ! 2) / 255)
                      (of_int (v ! 3) / 255)) (\<lambda>c.
       py_setitem cv (i div 4) c))"

definition import_rgba_data :: "Canvas \<Rightarrow> byte list \<Rightarrow> Canvas \<times> py_error option" where
  "import_rgba_data self data =
     (case py_range3 0 (int (length data)) 4 of
        Inl e \<Rightarrow> (self, Some e)
      | Inr is \<Rightarrow> (case for_loop (import_rgba_body data) is (canvas self)
                   of (cv, e) \<Rightarrow> (self\<lparr>canvas := cv\<rparr>, e)))"

text \<open>The data model's invariants: every channel within 0..1, and as many pixels as
  the dimensions say.\<close>

definition valid_color :: "rgba \<Rightarrow> bool" where
  "valid_color c \<longleftrightarrow>
     0 \<le> col_r c \<and> col_r c \<le> 1 \<and> 0 \<le> col_g c \<and> col_g c \<le> 1 \<and>
     0 \<le> col_b c \<and> col_b c \<le> 1 \<and> 0 \<le> col_a c \<and> col_a c \<le> 1"

definition channels_ok :: "Canvas \<Rightarrow> bool" where
  "channels_ok c \<longleftrightarrow> list_all valid_color (canvas c)"

definition well_sized :: "Canvas \<Rightarrow> bool" where
  "well_sized c \<longleftrightarrow> length (canvas c) = nat (width c * height c)"

section \<open>The PNG encoder (\<^verbatim>\<open>png_writer.py\<close>)\<close>

text \<open>
  The writer's \<^verbatim>\<open>width\<close> and \<^verbatim>\<open>height\<close> carry the prefix \<open>png_\<close> to keep them
  apart from the canvas's fields.  The stream is the sequence of bytes written so far;
  \<^verbatim>\<open>stream.write\<close> appends to it.
\<close>

record PngWriter =
  stream :: "byte list"
  png_width :: int
  png_height :: int
  dynamic_filtering :: bool

subsection \<open>Library functions: \<^verbatim>\<open>zlib.crc32\<close> and \<^verbatim>\<open>struct.pack\<close>\<close>

text \<open>
  \<^verbatim>\<open>zlib.crc32(data, value)\<close> is the CRC-32 of PNG and zip: the reflected polynomial
  \<^verbatim>\<open>0xEDB88320\<close>, the running value complemented on entry and on exit, one byte at a
  time, eight shifts per byte.  The second argument is the checksum so far, 0 when it is
  left out.
\<close>

definition crc32_shift :: "32 word \<Rightarrow> 32 word" where
  "crc32_shift c = (if bit c 0 then drop_bit 1 c XOR 0xEDB88320 else drop_bit 1 c)"

definition crc32_update :: "32 word \<Rightarrow> byte \<Rightarrow> 32 word" where
  "crc32_update c x = (crc32_shift ^^ 8) (c XOR ucast x)"

definition crc32 :: "byte list \<Rightarrow> 32 word \<Rightarrow> 32 word" where
  "crc32 data value = NOT (foldl crc32_update (NOT value) data)"

text \<open>\<^verbatim>\<open>pack("!I", n)\<close>: four bytes, most significant first; a \<^verbatim>\<open>struct.error\<close>
  outside the range of an unsigned 32-bit integer.  \<^verbatim>\<open>pack("4s", t)\<close> cuts or pads
  \<open>t\<close> with null bytes to four bytes.\<close>

definition pack_I :: "int \<Rightarrow> py_error + byte list" where
  "pack_I n =
     (if 0 \<le> n \<and> n < 2 ^ 32
      then Inr [word_of_int (n div 2 ^ 24), word_of_int (n div 2 ^ 16),
                word_of_int (n div 2 ^ 8), word_of_int n]
      else Inl StructError)"

definition pack_4s :: "byte list \<Rightarrow> byte list" where
  "pack_4s t = take 4 (t @ replicate 4 0)"

subsection \<open>Chunks\<close>

definition write_chunk :: "PngWriter \<Rightarrow> byte list \<Rightarrow> byte list \<Rightarrow> PngWriter \<times> py_error option" where
  "write_chunk self type data =
     (case pack_I (int (length data)) of
        Inl e \<Rightarrow> (self, Some e)
      | Inr len \<Rightarrow>
          let head = len @ pack_4s type;
              self1 = self\<lparr>stream := stream self @ head\<rparr>;
              self2 = self1\<lparr>stream := stream self1 @ data\<rparr>
          in (case pack_I (uint (crc32 data (crc32 type 0))) of
                Inl e \<Rightarrow> (self2, Some e)
              | Inr tail \<Rightarrow> (self2\<lparr>stream := stream self2 @ tail\<rparr>, None)))"

subsection \<open>Filters\<close>

text \<open>\<^verbatim>\<open>0 if i < 3 else line[i - 3]\<close>, and the truth value of \<^verbatim>\<open>prev_scanline\<close>:
  \<^verbatim>\<open>None\<close> and the empty byte string are both false.\<close>

definition byte_at :: "byte list \<Rightarrow> int \<Rightarrow> py_error + int" where
  "byte_at line i = bindE (py_getitem line i) (\<lambda>v. Inr (uint v))"

definition left_of :: "byte list \<Rightarrow> nat \<Rightarrow> py_error + int" where
  "left_of line i = (if i < 3 then Inr 0 else byte_at line (int i - 3))"

definition truthy :: "byte list option \<Rightarrow> bool" where
  "truthy prev_scanline = (case prev_scanline of None \<Rightarrow> False | Some p \<Rightarrow> p \<noteq> [])"

definition store_byte :: "byte list \<Rightarrow> nat \<Rightarrow> int \<Rightarrow> py_error + byte list" where
  "store_byte new_scanline i v = py_setitem new_scanline (int i + 1) (word_of_int (v mod 256))"

definition none_filter :: "byte list \<Rightarrow> byte list option \<Rightarrow> py_error + byte list" where
  "none_filter scanline prev_scanline = Inr (([] @ [0]) @ scanline)"

definition sub_filter :: "byte list \<Rightarrow> byte list option \<Rightarrow> py_error + byte list" where
  "sub_filter scanline prev_scanline =
     bindE (py_setitem (replicate (1 + length scanline) 0) 0 1) (\<lambda>new_scanline.
       for_each (\<lambda>(i, x) new_scanline.
           bindE (left_of scanline i) (\<lambda>a.
             store_byte new_scanline i (uint x - a)))
         (enumerate 0 scanline) new_scanline)"

definition up_filter :: "byte list \<Rightarrow> byte list option \<Rightarrow> py_error + byte list" where
  "up_filter scanline prev_scanline =
     bindE (py_setitem (replicate (1 + length scanline) 0) 0 2) (\<lambda>new_scanline.
       for_each (\<lambda>(i, x) new_scanline.
           bindE (if truthy prev_scanline then byte_at (the prev_scanline) (int i) else Inr 0) (\<lambda>b.
             store_byte new_scanline i (uint x - b)))
         (enumerate 0 scanline) new_scanline)"

definition average_filter :: "byte list \<Rightarrow> byte list option \<Rightarrow> py_error + byte list" where
  "average_filter scanline prev_scanline =
     bindE (py_setitem (replicate (1 + length scanline) 0) 0 3) (\<lambda>new_scanline.
       for_each (\<lambda>(i, x) new_scanline.
           bindE (left_of scanline i) (\<lambda>a.
           bindE (if truthy prev_scanline then byte_at (the prev_scanline) (int i) else Inr 0) (\<lambda>b.
             let avg = (a + b) div 2
             in store_byte new_scanline i (uint x - avg))))
         (enumerate 0 scanline) new_scanline)"

text \<open>Lines 251 to 261 of \<^verbatim>\<open>paeth_filter\<close>.\<close>

definition paeth_pr :: "int \<Rightarrow> int \<Rightarrow> int \<Rightarrow> int" where
  "paeth_pr a b c =
     (let p = a + b - c;
          pa = \<bar>p - a\<bar>;
          pb = \<bar>p - b\<bar>;
          pc = \<bar>p - c\<bar>
      in if pa \<le> pb \<and> pa \<le> pc then a
         else if pb \<le> pc then b
         else c)"

definition paeth_filter :: "byte list \<Rightarrow> byte list option \<Rightarrow> py_error + byte list" where
  "paeth_filter scanline prev_scanline =
     bindE (py_setitem (replicate (1 + length scanline) 0) 0 4) (\<lambda>new_scanline.
       for_each (\<lambda>(i, x) new_scanline.
           bindE (left_of scanline i) (\<lambda>a.
           bindE (if truthy prev_scanline
                  then bindE (byte_at (the prev_scanline) (int i)) (\<lambda>b.
                       bindE (left_of (the prev_scanline) i) (\<lambda>c. Inr (b, c)))
                  else Inr (0, 0)) (\<lambda>(b, c).
             store_byte new_scanline i (uint x - paeth_pr a b c))))
         (enumerate 0 scanline) new_scanline)"

subsection \<open>Filter selection and \<^verbatim>\<open>process_image_data\<close>\<close>

definition filters :: "(byte list \<Rightarrow> byte list option \<Rightarrow> py_error + byte list) list" where
  "filters = [none_filter, sub_filter, up_filter, average_filter, paeth_filter]"

text \<open>\<^verbatim>\<open>reduce(lambda x, y: x + abs(c_byte(y).value), line[1:])\<close>: with no initial
  value the first element of the sequence is the first accumulator, as it is.\<close>

definition min_sum_of_abs_diff :: "byte list \<Rightarrow> py_error + int" where
  "min_sum_of_abs_diff line =
     (case py_slice line 1 (int (length line)) of
        [] \<Rightarrow> Inl TypeError_reduce_empty
      | y0 # ys \<Rightarrow> Inr (foldl (\<lambda>x y. x + \<bar>sint y\<bar>) (uint y0) ys))"

definition previous_of :: "byte list list \<Rightarrow> int \<Rightarrow> py_error + byte list option" where
  "previous_of scanlines i =
     (if i = 0 then Inr None else bindE (py_getitem scanlines (i - 1)) (\<lambda>p. Inr (Some p)))"

text \<open>The candidates of one line with their scores, and the line that is picked:
  \<^verbatim>\<open>sorted\<close> is stable, as \<open>sort_key\<close> is.\<close>

definition score_candidates :: "byte list \<Rightarrow> byte list option \<Rightarrow> py_error + (byte list \<times> int) list" where
  "score_candidates line previous_line =
     for_each (\<lambda>flt results.
         bindE (flt line previous_line) (\<lambda>processed_line.
         bindE (min_sum_of_abs_diff processed_line) (\<lambda>score.
           Inr (results @ [(processed_line, score)]))))
       filters []"

definition select_line :: "byte list \<Rightarrow> byte list option \<Rightarrow> py_error + byte list" where
  "select_line line previous_line =
     bindE (score_candidates line previous_line) (\<lambda>results.
       let ranking = sort_key snd results
       in bindE (py_getitem ranking 0) (\<lambda>t. Inr (fst t)))"

definition dynamic_body :: "byte list list \<Rightarrow> int \<Rightarrow> byte list list \<Rightarrow> py_error + byte list list" where
  "dynamic_body scanlines i processed =
     bindE (py_getitem scanlines i) (\<lambda>line.
     bindE (previous_of scanlines i) (\<lambda>previous_line.
     bindE (select_line line previous_line) (\<lambda>best.
       Inr (processed @ [best]))))"

definition static_body :: "byte list list \<Rightarrow> int \<Rightarrow> byte list list \<Rightarrow> py_error + byte list list" where
  "static_body scanlines i processed =
     bindE (py_getitem scanlines i) (\<lambda>line.
     bindE (previous_of scanlines i) (\<lambda>previous_line.
     bindE (paeth_filter line previous_line) (\<lambda>out.
       Inr (processed @ [out]))))"

text \<open>Lines 115 to 148: the filtered scanlines, before they are joined and compressed.\<close>

definition process_lines :: "PngWriter \<Rightarrow> byte list \<Rightarrow> py_error + byte list list" where
  "process_lines self img =
     (if int (length img) \<noteq> png_width self * png_height self * 3
      then Inl ValueError_size_mismatch
      else
        bindE (py_range3 0 (png_width self * png_height self * 3) (png_width self * 3)) (\<lambda>starts.
          let scanlines = map (\<lambda>i. py_slice img i (i + png_width self * 3)) starts
          in if dynamic_filtering self
             then for_each (dynamic_body scanlines) (py_range (png_height self)) []
             else for_each (static_body scanlines) (py_range (png_height self)) []))"

text \<open>\<^verbatim>\<open>zlib.compress(_, 9)\<close> is a parameter: a total function on byte strings.\<close>

definition process_image_data :: "(byte list \<Rightarrow> byte list) \<Rightarrow> PngWriter \<Rightarrow> byte list \<Rightarrow> py_error + byte list" where
  "process_image_data compress self img =
     bindE (process_lines self img) (\<lambda>processed. Inr (compress (concat processed)))"

definition write_idat :: "(byte list \<Rightarrow> byte list) \<Rightarrow> PngWriter \<Rightarrow> byte list \<Rightarrow> PngWriter \<times> py_error option" where
  "write_idat compress self img =
     (case process_image_data compress self img of
        Inl e \<Rightarrow> (self, Some e)
      | Inr data \<Rightarrow> write_chunk self [0x49, 0x44, 0x41, 0x54] data)"

section \<open>The specification's notions\<close>

text \<open>The score of a filtered line as the specification words it: the sum, over the
  bytes after the tag byte, of the absolute value of the byte read as a signed 8-bit
  value.\<close>

definition spec_score :: "byte list \<Rightarrow> int" where
  "spec_score out = sum_list (map (\<lambda>y. \<bar>sint y\<bar>) (tl out))"

text \<open>A big-endian byte string read as a number.\<close>

definition be_value :: "byte list \<Rightarrow> nat" where
  "be_value bs = foldl (\<lambda>acc x. acc * 256 + unat x) 0 bs"

text \<open>The Paeth predictor as the specification words it: of a, b, c in this order,
  the first that is nearest to \<open>p = a + b - c\<close>; and the neighbours of a byte, 0 where
  there is none.\<close>

definition spec_paeth_predictor :: "int \<Rightarrow> int \<Rightarrow> int \<Rightarrow> int" where
  "spec_paeth_predictor a b c = arg_min_list (\<lambda>v. \<bar>(a + b - c) - v\<bar>) [a, b, c]"

definition byte_or_zero :: "byte list \<Rightarrow> int \<Rightarrow> int" where
  "byte_or_zero line i = (if 0 \<le> i \<and> i < int (length line) then uint (line ! nat i) else 0)"

definition spec_paeth_byte :: "byte list \<Rightarrow> byte list \<Rightarrow> nat \<Rightarrow> byte" where
  "spec_paeth_byte line prev i =
     word_of_int ((uint (line ! i)
        - spec_paeth_predictor (byte_or_zero line (int i - 3)) (byte_or_zero prev (int i))
            (byte_or_zero prev (int i - 3))) mod 256)"

text \<open>The pixel that the import methods are to store at position \<open>k\<close>: the bytes of
  the pixel, each divided by 255; and the three bytes an opaque pixel contributes to
  the flattened output.\<close>

definition rgb_pixel :: "byte list \<Rightarrow> nat \<Rightarrow> rgba" where
  "rgb_pixel data k =
     \<lparr>col_r = of_int (uint (data ! (3 * k))) / 255, col_g = of_int (uint (data ! (3 * k + 1))) / 255,
      col_b = of_int (uint (data ! (3 * k + 2))) / 255, col_a = 1\<rparr>"

definition rgba_pixel :: "byte list \<Rightarrow> nat \<Rightarrow> rgba" where
  "rgba_pixel data k =
     \<lparr>col_r = of_int (uint (data ! (4 * k))) / 255, col_g = of_int (uint (data ! (4 * k + 1))) / 255,
      col_b = of_int (uint (data ! (4 * k + 2))) / 255,
      col_a = of_int (uint (data ! (4 * k + 3))) / 255\<rparr>"

definition opaque_triple :: "(rat \<Rightarrow> rat) \<Rightarrow> rgba \<Rightarrow> byte list" where
  "opaque_triple rnd p =
     [word_of_int \<lfloor>rnd (col_r p * 255)\<rfloor>, word_of_int \<lfloor>rnd (col_g p * 255)\<rfloor>,
      word_of_int \<lfloor>rnd (col_b p * 255)\<rfloor>]"

text \<open>What blending a source pixel of alpha 0 over a pixel computes: the alpha is
  kept, and each colour channel \<open>c\<close> is multiplied by the alpha and divided by it again,
  which gives \<open>c\<close> where nothing is rounded.\<close>

definition recomputed :: "(rat \<Rightarrow> rat) \<Rightarrow> rgba \<Rightarrow> rgba" where
  "recomputed rnd p =
     p\<lparr>col_r := rnd (rnd (col_r p * col_a p) / col_a p),
       col_g := rnd (rnd (col_g p * col_a p) / col_a p),
       col_b := rnd (rnd (col_b p * col_a p) / col_a p)\<rparr>"

text \<open>The position in the destination's pixel array that the source pixel \<open>i\<close> of a
  blend falls on, if it falls within the destination; and whether some source pixel
  falls on position \<open>k\<close>.\<close>

definition blend_target :: "Canvas \<Rightarrow> Canvas \<Rightarrow> int \<Rightarrow> int \<Rightarrow> nat \<Rightarrow> int option" where
  "blend_target self src offset_x offset_y i =
     (let target_x = offset_x + int i mod width src;
          target_y = offset_y + int i div width src
      in if target_x < 0 \<or> target_x > width self - 1 \<or> target_y < 0 \<or> target_y > height self - 1
         then None
         else Some (target_y * width self + target_x))"

definition covered :: "Canvas \<Rightarrow> Canvas \<Rightarrow> int \<Rightarrow> int \<Rightarrow> nat \<Rightarrow> bool" where
  "covered self src offset_x offset_y k \<longleftrightarrow>
     list_ex (\<lambda>i. blend_target self src offset_x offset_y i = Some (int k))
       [0..<length (canvas src)]"

text \<open>A coarse rounding function, to the nearest multiple of 1/16, to run the
  floating-point functions on concrete pixels.\<close>

definition round16 :: "rat \<Rightarrow> rat" where
  "round16 x = of_int \<lfloor>x * 16 + 1 / 2\<rfloor> / 16"

text \<open>A cell that \<^verbatim>\<open>blend\<close> treats as opaque: its alpha is at least 0.999999.\<close>

definition opaque_at :: "Canvas \<Rightarrow> int \<Rightarrow> int \<Rightarrow> bool" where
  "opaque_at self x y =
     (case canvas_at self x y of Inl e \<Rightarrow> False | Inr p \<Rightarrow> 999999 / 1000000 \<le> col_a p)"

lemma for_loop_preserves:
  assumes "P s" and "\<And>x t t'. x \<in> set xs \<Longrightarrow> P t \<Longrightarrow> body x t = Inr t' \<Longrightarrow> P t'"
  shows "P (fst (for_loop body xs s))"
  using assms
proof (induction xs arbitrary: s)
  case Nil
  then show ?case by simp
next
  case (Cons x xs)
  show ?case
  proof (cases "body x s")
    case (Inl e)
    with Cons.prems(1) show ?thesis by simp
  next
    case (Inr s')
    have "P s'" using Cons.prems(2) [of x s s'] Cons.prems(1) Inr by simp
    moreover have "\<And>y t t'. y \<in> set xs \<Longrightarrow> P t \<Longrightarrow> body y t = Inr t' \<Longrightarrow> P t'"
      using Cons.prems(2) by (meson list.set_intros(2))
    ultimately have "P (fst (for_loop body xs s'))" by (rule Cons.IH)
    with Inr show ?thesis by simp
  qed
qed

lemma for_each_preserves:
  assumes "for_each body xs s = Inr s'" and "P s"
    and "\<And>x t t'. x \<in> set xs \<Longrightarrow> P t \<Longrightarrow> body x t = Inr t' \<Longrightarrow> P t'"
  shows "P s'"
proof -
  have "P (fst (for_loop body xs s))" using assms(2,3) by (rule for_loop_preserves)
  moreover have "fst (for_loop body xs s) = s'"
    using assms(1) by (auto simp: for_each_def split: prod.splits option.splits)
  ultimately show ?thesis by simp
qed

lemma for_loop_rule:
  assumes "I 0 s"
    and "\<And>i t. i < length xs \<Longrightarrow> I i t \<Longrightarrow> \<exists>t'. body (xs ! i) t = Inr t' \<and> I (Suc i) t'"
  shows "\<exists>s'. for_loop body xs s = (s', None) \<and> I (length xs) s'"
  using assms
proof (induction xs arbitrary: I s)
  case Nil
  then show ?case by simp
next
  case (Cons x xs)
  from Cons.prems(2) [of 0 s] Cons.prems(1)
  obtain t where t: "body x s = Inr t" "I (Suc 0) t" by auto
  have "\<exists>s'. for_loop body xs t = (s', None) \<and> I (Suc (length xs)) s'"
  proof (rule Cons.IH [where I = "\<lambda>i. I (Suc i)"])
    show "I (Suc 0) t" by (rule t)
  next
    fix i u assume "i < length xs" "I (Suc i) u"
    with Cons.prems(2) [of "Suc i" u]
    show "\<exists>t'. body (xs ! i) u = Inr t' \<and> I (Suc (Suc i)) t'" by simp
  qed
  with t show ?case by simp
qed

lemma for_each_rule:
  assumes "I 0 s"
    and "\<And>i t. i < length xs \<Longrightarrow> I i t \<Longrightarrow> \<exists>t'. body (xs ! i) t = Inr t' \<and> I (Suc i) t'"
  shows "\<exists>s'. for_each body xs s = Inr s' \<and> I (length xs) s'"
  using for_loop_rule [of I s xs body, OF assms] by (auto simp: for_each_def)

lemma blend_pixel_opaque:
  assumes "ign \<or> col_a s \<ge> 999999 / 1000000"
  shows "blend_pixel ign s d = Inr s"
  using assms by (auto simp add: blend_pixel_def)

lemma cell_index_bounds:
  fixes tx ty W H :: int
  assumes "0 \<le> tx" "tx \<le> W - 1" "0 \<le> ty" "ty \<le> H - 1"
  shows "0 \<le> ty * W + tx" and "ty * W + tx < W * H"
proof -
  have W: "0 \<le> W" using assms by linarith
  show "0 \<le> ty * W + tx" using assms W by simp
  have "ty * W \<le> (H - 1) * W" using assms(4) W by (rule mult_right_mono)
  then have "ty * W + tx \<le> (H - 1) * W + (W - 1)" using assms(2) by linarith
  also have "\<dots> = W * H - 1" by (simp add: algebra_simps)
  finally show "ty * W + tx < W * H" by simp
qed

lemma py_getitem_in_range:
  "0 \<le> k \<Longrightarrow> k < int (length xs) \<Longrightarrow> py_getitem xs k = Inr (xs ! nat k)"
  by (simp add: py_getitem_def Let_def)

lemma py_setitem_in_range:
  "0 \<le> k \<Longrightarrow> k < int (length xs) \<Longrightarrow> py_setitem xs k v = Inr (xs[nat k := v])"
  by (simp add: py_setitem_def Let_def)

text \<open>A source pixel of alpha 0 on a destination pixel of alpha 0: the division raises.\<close>

lemma blend_transparent_onto_transparent_raises:
  "blend (Canvas_init 1 1 \<lparr>col_r = 0, col_g = 0, col_b = 0, col_a = 0\<rparr>)
         (Canvas_init 1 1 \<lparr>col_r = 0, col_g = 0, col_b = 0, col_a = 0\<rparr>) 0 0 False
   = (Canvas_init 1 1 \<lparr>col_r = 0, col_g = 0, col_b = 0, col_a = 0\<rparr>, Some ZeroDivisionError)"
  by (simp add: blend_def blend_body_def blend_pixel_def Canvas_init_def clear_def py_range_def
      enumerate_eq_zip py_getitem_def py_setitem_def bindE_def Let_def)

subsection \<open>The channel range is kept\<close>

lemma over_alpha_range:
  fixes sa da :: rat
  assumes "0 \<le> sa" "sa \<le> 1" "0 \<le> da" "da \<le> 1"
  shows "0 \<le> sa + da * (1 - sa)" and "sa + da * (1 - sa) \<le> 1"
proof -
  have t: "0 \<le> da * (1 - sa)" using assms by simp
  then show "0 \<le> sa + da * (1 - sa)" using assms(1) by linarith
  have "da * (1 - sa) \<le> 1 * (1 - sa)" using assms by (intro mult_right_mono) simp_all
  then show "sa + da * (1 - sa) \<le> 1" by simp
qed

lemma over_channel_range:
  fixes sc sa dc da :: rat
  assumes "0 \<le> sc" "sc \<le> 1" "0 \<le> sa" "sa \<le> 1" "0 \<le> dc" "dc \<le> 1" "0 \<le> da" "da \<le> 1"
    and nz: "sa + da * (1 - sa) \<noteq> 0"
  shows "0 \<le> (sc * sa + dc * da * (1 - sa)) / (sa + da * (1 - sa))"
    and "(sc * sa + dc * da * (1 - sa)) / (sa + da * (1 - sa)) \<le> 1"
proof -
  have t: "0 \<le> da * (1 - sa)" using assms by simp
  have pos: "0 < sa + da * (1 - sa)"
    using over_alpha_range(1) [OF assms(3,4,7,8)] nz by linarith
  have n1: "0 \<le> sc * sa" using assms by simp
  have n2: "0 \<le> dc * (da * (1 - sa))" using assms(5) t by (rule mult_nonneg_nonneg)
  have u1: "sc * sa \<le> 1 * sa" using assms by (intro mult_right_mono) simp_all
  have u2: "dc * (da * (1 - sa)) \<le> 1 * (da * (1 - sa))"
    using assms(6) t by (intro mult_right_mono) simp_all
  have num0: "0 \<le> sc * sa + dc * da * (1 - sa)" using n1 n2 by (simp add: mult.assoc)
  have num1: "sc * sa + dc * da * (1 - sa) \<le> sa + da * (1 - sa)"
    using u1 u2 by (simp add: mult.assoc)
  show "0 \<le> (sc * sa + dc * da * (1 - sa)) / (sa + da * (1 - sa))"
    using num0 pos by simp
  show "(sc * sa + dc * da * (1 - sa)) / (sa + da * (1 - sa)) \<le> 1"
    using num1 pos by simp
qed

lemma blend_pixel_valid:
  assumes s: "valid_color s" and d: "valid_color d" and r: "blend_pixel ign s d = Inr c"
  shows "valid_color c"
proof (cases "ign \<or> col_a s \<ge> 999999 / 1000000")
  case True
  then have "c = s" using r blend_pixel_opaque [of ign s d] by simp
  with s show ?thesis by simp
next
  case False
  define na where "na = col_a s + col_a d * (1 - col_a s)"
  have nz: "na \<noteq> 0" using r False by (auto simp: blend_pixel_def Let_def na_def split: if_splits)
  have sv: "0 \<le> col_r s" "col_r s \<le> 1" "0 \<le> col_g s" "col_g s \<le> 1"
    "0 \<le> col_b s" "col_b s \<le> 1" "0 \<le> col_a s" "col_a s \<le> 1"
    using s by (simp_all add: valid_color_def)
  have dv: "0 \<le> col_r d" "col_r d \<le> 1" "0 \<le> col_g d" "col_g d \<le> 1"
    "0 \<le> col_b d" "col_b d \<le> 1" "0 \<le> col_a d" "col_a d \<le> 1"
    using d by (simp_all add: valid_color_def)
  note nz' = nz [unfolded na_def]
  note R = over_channel_range [OF sv(1,2) sv(7,8) dv(1,2) dv(7,8) nz']
  note G = over_channel_range [OF sv(3,4) sv(7,8) dv(3,4) dv(7,8) nz']
  note B = over_channel_range [OF sv(5,6) sv(7,8) dv(5,6) dv(7,8) nz']
  note A = over_alpha_range [OF sv(7,8) dv(7,8)]
  show ?thesis
    using r False nz' R G B A
    by (auto simp: blend_pixel_def Let_def valid_color_def split: if_splits)
qed

lemma RgbaColor_valid: "RgbaColor r g b a = Inr c \<Longrightarrow> valid_color c"
  by (auto simp: RgbaColor_def valid_color_def split: if_splits)

lemma py_setitem_list_all:
  assumes "py_setitem xs k v = Inr ys" "list_all P xs" "P v"
  shows "list_all P ys"
proof -
  have "ys = xs[nat (if k < 0 then k + int (length xs) else k) := v]"
    using assms(1) by (auto simp: py_setitem_def Let_def split: if_splits)
  then show ?thesis
    using assms(2,3) by (auto simp: list_all_iff dest: set_update_subset_insert [THEN subsetD])
qed

lemma py_getitem_list_all:
  assumes "py_getitem xs k = Inr v" "list_all P xs"
  shows "P v"
  using assms by (auto simp: py_getitem_def Let_def list_all_length split: if_splits)

lemma blend_body_valid:
  assumes "blend_body dst w ox oy ign (i, sc) cv = Inr cv'" "valid_color sc" "list_all valid_color cv"
  shows "list_all valid_color cv'"
proof -
  define tx where "tx = ox + int i mod w"
  define ty where "ty = oy + int i div w"
  show ?thesis
  proof (cases "tx < 0 \<or> tx > width dst - 1 \<or> ty < 0 \<or> ty > height dst - 1")
    case True
    then have "cv' = cv"
      using assms(1) by (auto simp: blend_body_def Let_def tx_def ty_def split: if_splits)
    with assms(3) show ?thesis by simp
  next
    case False
    define k where "k = ty * width dst + tx"
    have eq: "bindE (py_getitem cv k) (\<lambda>dst_color.
            bindE (blend_pixel ign sc dst_color) (\<lambda>c. py_setitem cv k c)) = Inr cv'"
      using assms(1) False
      by (auto simp: blend_body_def Let_def tx_def ty_def k_def split: if_splits)
    then obtain dc where dc: "py_getitem cv k = Inr dc"
      by (auto simp: bindE_def split: sum.splits)
    with eq obtain c where c: "blend_pixel ign sc dc = Inr c" and st: "py_setitem cv k c = Inr cv'"
      by (auto simp: bindE_def split: sum.splits)
    have "valid_color dc" using dc assms(3) by (rule py_getitem_list_all)
    with assms(2) have "valid_color c" using c by (rule blend_pixel_valid)
    with st assms(3) show ?thesis by (rule py_setitem_list_all)
  qed
qed

lemma blend_valid:
  assumes "channels_ok dst" "channels_ok src"
  shows "channels_ok (fst (blend dst src ox oy ign))"
proof -
  let ?body = "blend_body dst (width src) ox oy ign"
  have "list_all valid_color (fst (for_loop ?body (enumerate 0 (canvas src)) (canvas dst)))"
  proof (rule for_loop_preserves)
    show "list_all valid_color (canvas dst)" using assms(1) by (simp add: channels_ok_def)
  next
    fix x t t'
    assume x: "x \<in> set (enumerate 0 (canvas src))" and t: "list_all valid_color t"
      and b: "?body x t = Inr t'"
    obtain i sc where xi: "x = (i, sc)" by (cases x)
    with x have "sc \<in> set (canvas src)" by (auto simp: in_set_enumerate_eq)
    then have "valid_color sc" using assms(2) by (simp add: channels_ok_def list_all_iff)
    with b xi t show "list_all valid_color t'" by (auto intro: blend_body_valid)
  qed
  then show ?thesis by (simp add: blend_def case_prod_beta channels_ok_def)
qed

lemma import_rgb_valid:
  assumes "channels_ok c"
  shows "channels_ok (fst (import_rgb_data c data))"
proof -
  have "list_all valid_color (fst (for_loop (import_rgb_body data) is (canvas c)))" for "is"
  proof (rule for_loop_preserves)
    show "list_all valid_color (canvas c)" using assms by (simp add: channels_ok_def)
  next
    fix x t t'
    assume "list_all valid_color t" "import_rgb_body data x t = Inr t'"
    then show "list_all valid_color t'"
      by (auto simp: import_rgb_body_def bindE_def split: sum.splits
          intro: py_setitem_list_all RgbaColor_valid)
  qed
  then show ?thesis using assms
    by (simp add: import_rgb_data_def channels_ok_def case_prod_beta split: sum.splits)
qed

lemma import_rgba_valid:
  assumes "channels_ok c"
  shows "channels_ok (fst (import_rgba_data c data))"
proof -
  have "list_all valid_color (fst (for_loop (import_rgba_body data) is (canvas c)))" for "is"
  proof (rule for_loop_preserves)
    show "list_all valid_color (canvas c)" using assms by (simp add: channels_ok_def)
  next
    fix x t t'
    assume "list_all valid_color t" "import_rgba_body data x t = Inr t'"
    then show "list_all valid_color t'"
      by (auto simp: import_rgba_body_def bindE_def split: sum.splits
          intro: py_setitem_list_all RgbaColor_valid)
  qed
  then show ?thesis using assms
    by (simp add: import_rgba_data_def channels_ok_def case_prod_beta split: sum.splits)
qed

lemma clear_valid: "valid_color (bgcolor c) \<Longrightarrow> channels_ok (clear c)"
  by (simp add: channels_ok_def clear_def list_all_iff)

lemma Canvas_init_valid: "valid_color bg \<Longrightarrow> channels_ok (Canvas_init w h bg)"
  by (simp add: Canvas_init_def clear_valid)

lemma rect_body_valid:
  assumes "rect_body self x y w ty tx cv = Inr cv'" "channels_ok self" "list_all valid_color cv"
  shows "list_all valid_color cv'"
proof -
  from assms(1) obtain color where a: "canvas_at self (x + tx) (y + ty) = Inr color"
    and st: "py_setitem cv (ty * w + tx) color = Inr cv'"
    by (auto simp: rect_body_def bindE_def split: sum.splits)
  from a obtain k where "py_getitem (canvas self) k = Inr color"
    by (auto simp: canvas_at_def bindE_def split: sum.splits)
  then have "valid_color color"
    using assms(2) by (auto simp: channels_ok_def intro: py_getitem_list_all)
  with st assms(3) show ?thesis by (rule py_setitem_list_all)
qed

lemma rect_valid:
  assumes "rect self x y w h = Inr r" "channels_ok self" "valid_color (bgcolor self)"
  shows "channels_ok r \<and> valid_color (bgcolor r)"
proof -
  define r0 where "r0 = Canvas_init w h (bgcolor self)"
  from assms(1) obtain cv where
    loop: "for_each (\<lambda>ty. for_each (rect_body self x y w ty) (py_range w)) (py_range h) (canvas r0)
             = Inr cv"
    and r: "r = r0\<lparr>canvas := cv\<rparr>"
    by (auto simp: rect_def Let_def bindE_def r0_def split: if_splits sum.splits)
  have "list_all valid_color (canvas r0)"
    using Canvas_init_valid [OF assms(3)] by (simp add: r0_def channels_ok_def)
  with loop have "list_all valid_color cv"
  proof (rule for_each_preserves)
    fix ty t t'
    assume t: "list_all valid_color t"
      and inner: "for_each (rect_body self x y w ty) (py_range w) t = Inr t'"
    from inner t show "list_all valid_color t'"
    proof (rule for_each_preserves)
      fix tx u u'
      assume "list_all valid_color u" "rect_body self x y w ty tx u = Inr u'"
      then show "list_all valid_color u'" using assms(2) by (auto intro: rect_body_valid)
    qed
  qed
  then show ?thesis using r assms(3)
    by (simp add: channels_ok_def r0_def Canvas_init_def clear_def)
qed

text \<open>
  C10.  Construction, \<^verbatim>\<open>clear\<close>, \<^verbatim>\<open>blend\<close> with any flag and offsets, both import
  methods and \<^verbatim>\<open>rect\<close> keep every channel of every pixel within 0..1, for canvases
  (destination and source) whose pixels and background colour are within that range;
  the state left by a call that raises is covered as well (exact arithmetic).
\<close>

theorem canvas_operations_keep_channel_range:
  assumes "valid_color bg" and "channels_ok c" and "valid_color (bgcolor c)" and "channels_ok src"
  shows "channels_ok (Canvas_init w h bg)
       \<and> channels_ok (clear c)
       \<and> channels_ok (fst (blend c src offset_x offset_y ignore_src_alpha))
       \<and> channels_ok (fst (import_rgb_data c data))
       \<and> channels_ok (fst (import_rgba_data c data))
       \<and> (case rect c x y rw rh of Inl e \<Rightarrow> True | Inr r \<Rightarrow> channels_ok r \<and> valid_color (bgcolor r))"
  using assms
  by (auto simp: Canvas_init_valid clear_valid blend_valid import_rgb_valid import_rgba_valid
      split: sum.splits dest: rect_valid)

theorem canvas_operations_keep_channel_range_witness:
  "channels_ok (Canvas_init 2 2 \<lparr>col_r = 1, col_g = 1/2, col_b = 0, col_a = 1/3\<rparr>)
   \<and> channels_ok (clear \<lparr>width = 2, height = 1, bgcolor = \<lparr>col_r = 0, col_g = 0, col_b = 0, col_a = 1\<rparr>,
        canvas = [\<lparr>col_r = 1, col_g = 0, col_b = 0, col_a = 1/2\<rparr>,
                  \<lparr>col_r = 0, col_g = 1, col_b = 0, col_a = 1\<rparr>]\<rparr>)
   \<and> channels_ok (fst (blend \<lparr>width = 2, height = 1, bgcolor = \<lparr>col_r = 0, col_g = 0, col_b = 0, col_a = 1\<rparr>,
        canvas = [\<lparr>col_r = 1, col_g = 0, col_b = 0, col_a = 1/2\<rparr>,
                  \<lparr>col_r = 0, col_g = 1, col_b = 0, col_a = 1\<rparr>]\<rparr>
        (Canvas_init 1 1 \<lparr>col_r = 0, col_g = 0, col_b = 1, col_a = 1/2\<rparr>) 0 0 False))
   \<and> channels_ok (fst (import_rgb_data \<lparr>width = 2, height = 1, bgcolor = \<lparr>col_r = 0, col_g = 0, col_b = 0, col_a = 1\<rparr>,
        canvas = [\<lparr>col_r = 1, col_g = 0, col_b = 0, col_a = 1/2\<rparr>,
                  \<lparr>col_r = 0, col_g = 1, col_b = 0, col_a = 1\<rparr>]\<rparr> [255, 128, 0, 7]))
   \<and> channels_ok (fst (import_rgba_data \<lparr>width = 2, height = 1, bgcolor = \<lparr>col_r = 0, col_g = 0, col_b = 0, col_a = 1\<rparr>,
        canvas = [\<lparr>col_r = 1, col_g = 0, col_b = 0, col_a = 1/2\<rparr>,
                  \<lparr>col_r = 0, col_g = 1, col_b = 0, col_a = 1\<rparr>]\<rparr> [255, 128, 0, 7]))
   \<and> (case rect \<lparr>width = 2, height = 1, bgcolor = \<lparr>col_r = 0, col_g = 0, col_b = 0, col_a = 1\<rparr>,
        canvas = [\<lparr>col_r = 1, col_g = 0, col_b = 0, col_a = 1/2\<rparr>,
                  \<lparr>col_r = 0, col_g = 1, col_b = 0, col_a = 1\<rparr>]\<rparr> 1 0 1 1
       of Inl e \<Rightarrow> True | Inr r \<Rightarrow> channels_ok r \<and> valid_color (bgcolor r))"
  by (rule canvas_operations_keep_channel_range)
     (simp_all add: valid_color_def channels_ok_def Canvas_init_def clear_def py_range_def)

subsection \<open>Importing raw pixel data\<close>

lemma for_loop_append:
  "for_loop body (xs @ ys) s =
     (case for_loop body xs s of (s', None) \<Rightarrow> for_loop body ys s' | (s', Some e) \<Rightarrow> (s', Some e))"
  by (induction xs arbitrary: s) (auto split: sum.splits)

lemma fill_step:
  assumes "i < length cv0"
  shows "(map f [0..<i] @ drop i cv0)[i := f i] = map f [0..<Suc i] @ drop (Suc i) cv0"
proof -
  have d: "drop i cv0 = cv0 ! i # drop (Suc i) cv0"
    using assms by (simp add: Cons_nth_drop_Suc)
  show ?thesis by (simp add: list_update_append d)
qed

lemma byte_fraction_range:
  "0 \<le> (of_int (uint (x :: byte)) :: rat) / 255 \<and> (of_int (uint x) :: rat) / 255 \<le> 1"
proof -
  have "uint x < 256" using uint_bounded [of x] by simp
  then have "uint x \<le> 255" by simp
  then have "(of_int (uint x) :: rat) \<le> of_int 255" by (simp only: of_int_le_iff)
  moreover have "(0 :: rat) \<le> of_int (uint x)" by (simp only: of_int_0_le_iff uint_ge_0)
  ultimately show ?thesis by simp
qed

lemma py_range3_from_0:
  assumes "0 < st"
  shows "py_range3 0 (int n) (int st) = Inr (map (\<lambda>k. int k * int st) [0..<(n + st - 1) div st])"
proof -
  have e: "int n - 0 + int st - 1 = int (n + st - 1)" using assms by linarith
  have "nat ((int n - 0 + int st - 1) div int st) = (n + st - 1) div st"
    unfolding e by (simp only: zdiv_int [symmetric] nat_int)
  then show ?thesis using assms by (simp only: py_range3_def) simp
qed

lemma import_rgb_body_whole:
  assumes "3 * i + 3 \<le> length data" "i < length cv"
  shows "import_rgb_body data (int i * 3) cv = Inr (cv[i := rgb_pixel data i])"
proof -
  have u: "unpack_from 3 data (int i * 3) = Inr (map uint (take 3 (drop (3 * i) data)))"
    using assms(1) by (simp add: unpack_from_def Let_def nat_mult_distrib mult.commute)
  have n: "take 3 (drop (3 * i) data) = [data ! (3 * i), data ! (3 * i + 1), data ! (3 * i + 2)]"
    using assms(1) by (auto intro!: nth_equalityI simp: nth_Cons' less_Suc_eq numeral_3_eq_3)
  have c: "RgbaColor (of_int (uint (data ! (3 * i))) / 255) (of_int (uint (data ! (3 * i + 1))) / 255)
             (of_int (uint (data ! (3 * i + 2))) / 255) 1 = Inr (rgb_pixel data i)"
    using byte_fraction_range [of "data ! (3 * i)"] byte_fraction_range [of "data ! (3 * i + 1)"]
      byte_fraction_range [of "data ! (3 * i + 2)"]
    by (simp add: RgbaColor_def rgb_pixel_def not_less)
  have s: "py_setitem cv (int i * 3 div 3) (rgb_pixel data i) = Inr (cv[i := rgb_pixel data i])"
    using assms(2) by (simp add: py_setitem_def Let_def)
  show ?thesis
    unfolding import_rgb_body_def u n using c s by (simp add: bindE_def)
qed

lemma import_rgb_body_partial:
  assumes "length data < 3 * i + 3"
  shows "import_rgb_body data (int i * 3) cv = Inl StructError"
  using assms by (simp add: import_rgb_body_def unpack_from_def Let_def bindE_def)

lemma import_rgba_body_whole:
  assumes "4 * i + 4 \<le> length data" "i < length cv"
  shows "import_rgba_body data (int i * 4) cv = Inr (cv[i := rgba_pixel data i])"
proof -
  have u: "unpack_from 4 data (int i * 4) = Inr (map uint (take 4 (drop (4 * i) data)))"
    using assms(1) by (simp add: unpack_from_def Let_def nat_mult_distrib mult.commute)
  have n: "take 4 (drop (4 * i) data)
             = [data ! (4 * i), data ! (4 * i + 1), data ! (4 * i + 2), data ! (4 * i + 3)]"
    using assms(1) by (auto intro!: nth_equalityI simp: nth_Cons' less_Suc_eq eval_nat_numeral)
  have c: "RgbaColor (of_int (uint (data ! (4 * i))) / 255) (of_int (uint (data ! (4 * i + 1))) / 255)
             (of_int (uint (data ! (4 * i + 2))) / 255) (of_int (uint (data ! (4 * i + 3))) / 255)
           = Inr (rgba_pixel data i)"
    using byte_fraction_range [of "data ! (4 * i)"] byte_fraction_range [of "data ! (4 * i + 1)"]
      byte_fraction_range [of "data ! (4 * i + 2)"] byte_fraction_range [of "data ! (4 * i + 3)"]
    by (simp add: RgbaColor_def rgba_pixel_def not_less)
  have s: "py_setitem cv (int i * 4 div 4) (rgba_pixel data i) = Inr (cv[i := rgba_pixel data i])"
    using assms(2) by (simp add: py_setitem_def Let_def)
  show ?thesis
    unfolding import_rgba_body_def u n using c s by (simp add: bindE_def)
qed

lemma import_rgba_body_partial:
  assumes "length data < 4 * i + 4"
  shows "import_rgba_body data (int i * 4) cv = Inl StructError"
  using assms by (simp add: import_rgba_body_def unpack_from_def Let_def bindE_def)

lemma import_whole_loop:
  assumes body: "\<And>i cv. i < n \<Longrightarrow> i < length cv \<Longrightarrow> body (int i * st) cv = Inr (cv[i := f i])"
    and n: "n \<le> length cv0"
  shows "for_loop body (map (\<lambda>k. int k * st) [0..<n]) cv0
           = (map f [0..<n] @ drop n cv0, None)"
proof -
  let ?xs = "map (\<lambda>k. int k * st) [0..<n]"
  have "\<exists>s'. for_loop body ?xs cv0 = (s', None)
          \<and> s' = map f [0..<length ?xs] @ drop (length ?xs) cv0"
  proof (rule for_loop_rule [where I = "\<lambda>i t. t = map f [0..<i] @ drop i cv0"])
    show "cv0 = map f [0..<0] @ drop 0 cv0" by simp
  next
    fix i t assume i: "i < length ?xs" and t: "t = map f [0..<i] @ drop i cv0"
    from i have i': "i < n" by simp
    have len: "i < length t" using t i' n by simp
    have "body (?xs ! i) t = Inr (t[i := f i])" using body [OF i' len] i' by simp
    moreover have "t[i := f i] = map f [0..<Suc i] @ drop (Suc i) cv0"
      unfolding t using i' n by (intro fill_step) simp
    ultimately show "\<exists>t'. body (?xs ! i) t = Inr t' \<and> t' = map f [0..<Suc i] @ drop (Suc i) cv0"
      by simp
  qed
  then show ?thesis by simp
qed

text \<open>
  C3 (as amended).  For a buffer whose length is not a multiple of the pixel stride
  (3 for \<^verbatim>\<open>import_rgb_data\<close>, 4 for \<^verbatim>\<open>import_rgba_data\<close>) and whose whole pixels fit
  into the canvas, the import raises \<^verbatim>\<open>struct.error\<close> at the trailing partial pixel;
  the whole pixels before it, as many as the length divided by the stride rounded
  down, have been written to the pixel array in row-major order, and the other pixels
  are as they were.
\<close>

theorem import_partial_pixel_raises:
  "(length data mod 3 \<noteq> 0 \<and> length data div 3 \<le> length (canvas c) \<longrightarrow>
      import_rgb_data c data =
        (c\<lparr>canvas := map (rgb_pixel data) [0..<length data div 3]
                      @ drop (length data div 3) (canvas c)\<rparr>, Some StructError))
   \<and> (length data mod 4 \<noteq> 0 \<and> length data div 4 \<le> length (canvas c) \<longrightarrow>
      import_rgba_data c data =
        (c\<lparr>canvas := map (rgba_pixel data) [0..<length data div 4]
                      @ drop (length data div 4) (canvas c)\<rparr>, Some StructError))"
proof (intro conjI impI)
  assume a: "length data mod 3 \<noteq> 0 \<and> length data div 3 \<le> length (canvas c)"
  define n where "n = length data div 3"
  have cnt: "(length data + 3 - 1) div 3 = Suc n" using a unfolding n_def by presburger
  have r: "py_range3 0 (int (length data)) 3
             = Inr (map (\<lambda>k. int k * 3) [0..<n] @ [int n * 3])"
    using py_range3_from_0 [of 3 "length data"] cnt by simp
  have whole: "for_loop (import_rgb_body data) (map (\<lambda>k. int k * 3) [0..<n]) (canvas c)
                 = (map (rgb_pixel data) [0..<n] @ drop n (canvas c), None)"
  proof (rule import_whole_loop)
    fix i and cv :: "rgba list" assume "i < n" "i < length cv"
    moreover from \<open>i < n\<close> have "3 * i + 3 \<le> length data" unfolding n_def by presburger
    ultimately show "import_rgb_body data (int i * 3) cv = Inr (cv[i := rgb_pixel data i])"
      by (intro import_rgb_body_whole)
  next
    show "n \<le> length (canvas c)" using a by (simp add: n_def)
  qed
  have "length data < 3 * n + 3" unfolding n_def by presburger
  then have last: "import_rgb_body data (int n * 3) cv = Inl StructError" for cv
    by (rule import_rgb_body_partial)
  show "import_rgb_data c data =
        (c\<lparr>canvas := map (rgb_pixel data) [0..<length data div 3]
                      @ drop (length data div 3) (canvas c)\<rparr>, Some StructError)"
    by (simp add: import_rgb_data_def r for_loop_append whole last n_def [symmetric])
next
  assume a: "length data mod 4 \<noteq> 0 \<and> length data div 4 \<le> length (canvas c)"
  define n where "n = length data div 4"
  have cnt: "(length data + 4 - 1) div 4 = Suc n" using a unfolding n_def by presburger
  have r: "py_range3 0 (int (length data)) 4
             = Inr (map (\<lambda>k. int k * 4) [0..<n] @ [int n * 4])"
    using py_range3_from_0 [of 4 "length data"] cnt by simp
  have whole: "for_loop (import_rgba_body data) (map (\<lambda>k. int k * 4) [0..<n]) (canvas c)
                 = (map (rgba_pixel data) [0..<n] @ drop n (canvas c), None)"
  proof (rule import_whole_loop)
    fix i and cv :: "rgba list" assume "i < n" "i < length cv"
    moreover from \<open>i < n\<close> have "4 * i + 4 \<le> length data" unfolding n_def by presburger
    ultimately show "import_rgba_body data (int i * 4) cv = Inr (cv[i := rgba_pixel data i])"
      by (intro import_rgba_body_whole)
  next
    show "n \<le> length (canvas c)" using a by (simp add: n_def)
  qed
  have "length data < 4 * n + 4" unfolding n_def by presburger
  then have last: "import_rgba_body data (int n * 4) cv = Inl StructError" for cv
    by (rule import_rgba_body_partial)
  show "import_rgba_data c data =
        (c\<lparr>canvas := map (rgba_pixel data) [0..<length data div 4]
                      @ drop (length data div 4) (canvas c)\<rparr>, Some StructError)"
    by (simp add: import_rgba_data_def r for_loop_append whole last n_def [symmetric])
qed

theorem import_partial_pixel_raises_witness:
  "import_rgb_data \<lparr>width = 2, height = 1, bgcolor = \<lparr>col_r = 0, col_g = 0, col_b = 0, col_a = 0\<rparr>,
       canvas = [\<lparr>col_r = 0, col_g = 0, col_b = 0, col_a = 0\<rparr>,
                 \<lparr>col_r = 0, col_g = 0, col_b = 0, col_a = 0\<rparr>]\<rparr> [255, 0, 51, 102, 9]
     = (\<lparr>width = 2, height = 1, bgcolor = \<lparr>col_r = 0, col_g = 0, col_b = 0, col_a = 0\<rparr>,
       canvas = [\<lparr>col_r = 1, col_g = 0, col_b = 1 / 5, col_a = 1\<rparr>,
                 \<lparr>col_r = 0, col_g = 0, col_b = 0, col_a = 0\<rparr>]\<rparr>, Some StructError)
   \<and> import_rgba_data \<lparr>width = 2, height = 1, bgcolor = \<lparr>col_r = 0, col_g = 0, col_b = 0, col_a = 0\<rparr>,
       canvas = [\<lparr>col_r = 0, col_g = 0, col_b = 0, col_a = 0\<rparr>,
                 \<lparr>col_r = 0, col_g = 0, col_b = 0, col_a = 0\<rparr>]\<rparr> [255, 0, 51, 102, 9]
     = (\<lparr>width = 2, height = 1, bgcolor = \<lparr>col_r = 0, col_g = 0, col_b = 0, col_a = 0\<rparr>,
       canvas = [\<lparr>col_r = 1, col_g = 0, col_b = 1 / 5, col_a = 2 / 5\<rparr>,
                 \<lparr>col_r = 0, col_g = 0, col_b = 0, col_a = 0\<rparr>]\<rparr>, Some StructError)"
  using import_partial_pixel_raises [of "[255, 0, 51, 102, 9]"
      "\<lparr>width = 2, height = 1, bgcolor = \<lparr>col_r = 0, col_g = 0, col_b = 0, col_a = 0\<rparr>,
       canvas = [\<lparr>col_r = 0, col_g = 0, col_b = 0, col_a = 0\<rparr>,
                 \<lparr>col_r = 0, col_g = 0, col_b = 0, col_a = 0\<rparr>]\<rparr>"]
  by (simp add: rgb_pixel_def rgba_pixel_def)

text \<open>
  C3 as stated fails: a buffer of one byte makes \<^verbatim>\<open>import_rgb_data\<close> raise, and a
  buffer of three bytes makes \<^verbatim>\<open>import_rgba_data\<close> raise.
\<close>

theorem import_partial_pixel_counterexample:
  "import_rgb_data (Canvas_init 1 1 \<lparr>col_r = 0, col_g = 0, col_b = 0, col_a = 1\<rparr>) [7]
     = (Canvas_init 1 1 \<lparr>col_r = 0, col_g = 0, col_b = 0, col_a = 1\<rparr>, Some StructError)
   \<and> import_rgba_data (Canvas_init 1 1 \<lparr>col_r = 0, col_g = 0, col_b = 0, col_a = 1\<rparr>) [7, 8, 9]
     = (Canvas_init 1 1 \<lparr>col_r = 0, col_g = 0, col_b = 0, col_a = 1\<rparr>, Some StructError)"
  by (simp add: import_rgb_data_def import_rgba_data_def py_range3_def import_rgb_body_def
      import_rgba_body_def unpack_from_def bindE_def Let_def)

subsection \<open>Flattening\<close>

lemma rounding_mono: "rounding rnd \<Longrightarrow> x \<le> y \<Longrightarrow> rnd x \<le> rnd y"
  by (simp add: rounding_def mono_def)

lemma pack_3B_opaque:
  assumes R: "rounding rnd" and v: "valid_color p"
  shows "pack_3B \<lfloor>rnd (col_r p * 255)\<rfloor> \<lfloor>rnd (col_g p * 255)\<rfloor> \<lfloor>rnd (col_b p * 255)\<rfloor>
           = Inr (opaque_triple rnd p)"
proof -
  have b: "0 \<le> \<lfloor>rnd (v * 255)\<rfloor> \<and> \<lfloor>rnd (v * 255)\<rfloor> \<le> 255" if "0 \<le> v" "v \<le> 1" for v :: rat
  proof
    have "0 \<le> v * 255" using that by simp
    then have "rnd 0 \<le> rnd (v * 255)" by (rule rounding_mono [OF R])
    then have "0 \<le> rnd (v * 255)" using R by (simp add: rounding_def)
    then show "0 \<le> \<lfloor>rnd (v * 255)\<rfloor>" by simp
    have "v * 255 \<le> 255" using that by simp
    then have "rnd (v * 255) \<le> rnd 255" by (rule rounding_mono [OF R])
    then have "rnd (v * 255) \<le> 255" using R by (simp add: rounding_def)
    then have "\<lfloor>rnd (v * 255)\<rfloor> \<le> \<lfloor>255 :: rat\<rfloor>" by (rule floor_mono)
    then show "\<lfloor>rnd (v * 255)\<rfloor> \<le> 255" by simp
  qed
  show ?thesis
    using v b [of "col_r p"] b [of "col_g p"] b [of "col_b p"]
    by (simp add: pack_3B_def opaque_triple_def valid_color_def)
qed

lemma length_opaque_triples: "length (concat (map (opaque_triple rnd) ps)) = 3 * length ps"
  by (induction ps) (simp_all add: opaque_triple_def)

lemma opaque_threshold: "rounding rnd \<Longrightarrow> rnd (999 / 1000) \<le> 1"
  using rounding_mono [of rnd "999 / 1000" 1] by (simp add: rounding_def)

lemma bytes_body_opaque:
  assumes "rounding rnd" "valid_color p" "col_a p = 1"
  shows "bytes_body rnd self (i, p) data
           = Inr (take (i * 3) data @ opaque_triple rnd p @ drop (i * 3 + 3) data)"
  using assms(3) opaque_threshold [OF assms(1)] pack_3B_opaque [OF assms(1,2)]
  by (simp add: bytes_body_def bindE_def)

lemma bytes_opaque:
  assumes R: "rounding rnd"
    and "well_sized c" "0 \<le> width c * height c" "channels_ok c"
    and "\<forall>p \<in> set (canvas c). col_a p = 1"
  shows "bytes rnd c = Inr (concat (map (opaque_triple rnd) (canvas c)))"
proof -
  define ps where "ps = canvas c"
  define n where "n = length ps"
  have size: "nat (width c * height c * 3) = 3 * n"
    using assms(2,3) by (simp add: well_sized_def n_def ps_def nat_mult_distrib)
  let ?I = "\<lambda>i data. data = concat (map (opaque_triple rnd) (take i ps)) @ replicate (3 * (n - i)) 0"
  have "\<exists>s'. for_each (bytes_body rnd c) (enumerate 0 ps) (replicate (3 * n) 0) = Inr s'
          \<and> ?I (length (enumerate 0 ps)) s'"
  proof (rule for_each_rule [where I = ?I])
    show "?I 0 (replicate (3 * n) 0)" by simp
  next
    fix i t assume i: "i < length (enumerate 0 ps)" and t: "?I i t"
    from i have i': "i < n" by (simp add: n_def)
    then have nth: "enumerate 0 ps ! i = (i, ps ! i)" by (simp add: nth_enumerate_eq n_def)
    have mem: "ps ! i \<in> set (canvas c)" using i' by (simp add: n_def ps_def)
    then have v: "valid_color (ps ! i)" using assms(4) by (simp add: channels_ok_def list_all_iff)
    have a: "col_a (ps ! i) = 1" using mem assms(5) by blast
    define A where "A = concat (map (opaque_triple rnd) (take i ps))"
    have lA: "length A = i * 3" using i' by (simp add: A_def length_opaque_triples n_def)
    have t': "t = A @ replicate (3 * (n - i)) 0" using t by (simp add: A_def)
    have tk: "take (i * 3) t = A" using lA by (simp add: t')
    have dr: "drop (i * 3 + 3) t = replicate (3 * (n - Suc i)) 0"
      using lA i' by (simp add: t' diff_mult_distrib2)
    have "bytes_body rnd c (i, ps ! i) t
            = Inr (A @ opaque_triple rnd (ps ! i) @ replicate (3 * (n - Suc i)) 0)"
      using bytes_body_opaque [OF R v a, of c i t] by (simp add: tk dr)
    moreover have "concat (map (opaque_triple rnd) (take (Suc i) ps)) = A @ opaque_triple rnd (ps ! i)"
      using i' by (simp add: take_Suc_conv_app_nth A_def n_def)
    ultimately show "\<exists>t'. bytes_body rnd c (enumerate 0 ps ! i) t = Inr t' \<and> ?I (Suc i) t'"
      using nth by simp
  qed
  then have "for_each (bytes_body rnd c) (enumerate 0 ps) (replicate (3 * n) 0)
               = Inr (concat (map (opaque_triple rnd) ps))"
    by (simp add: n_def)
  then show ?thesis using assms(3) size
    by (simp add: bytes_def ps_def not_less mult.commute)
qed

lemma for_loop_cong_on:
  assumes "\<And>x t. x \<in> set xs \<Longrightarrow> f x t = g x t"
  shows "for_loop f xs s = for_loop g xs s"
  using assms by (induction xs arbitrary: s) (auto split: sum.splits)

lemma bytes_ignores_background:
  assumes R: "rounding rnd" and "\<forall>p \<in> set (canvas c). col_a p = 1"
  shows "bytes rnd (c\<lparr>bgcolor := bg1\<rparr>) = bytes rnd (c\<lparr>bgcolor := bg2\<rparr>)"
proof -
  have "for_loop (bytes_body rnd (c\<lparr>bgcolor := bg1\<rparr>)) (enumerate 0 (canvas c)) s
          = for_loop (bytes_body rnd (c\<lparr>bgcolor := bg2\<rparr>)) (enumerate 0 (canvas c)) s" for s
  proof (rule for_loop_cong_on)
    fix x t assume "x \<in> set (enumerate 0 (canvas c))"
    then have "snd x \<in> set (canvas c)" by (metis in_set_zipE enumerate_eq_zip prod.collapse)
    with assms have "col_a (snd x) = 1" by blast
    then show "bytes_body rnd (c\<lparr>bgcolor := bg1\<rparr>) x t = bytes_body rnd (c\<lparr>bgcolor := bg2\<rparr>) x t"
      using opaque_threshold [OF R] by (cases x) (simp add: bytes_body_def)
  qed
  then show ?thesis by (simp add: bytes_def for_each_def)
qed

text \<open>The coarse rounding function is a rounding function.\<close>

lemma rounding_round16: "rounding round16"
proof -
  have m: "mono round16"
  proof (rule monoI)
    fix x y :: rat assume "x \<le> y"
    then have "x * 16 + 1 / 2 \<le> y * 16 + 1 / 2" by simp
    then have "\<lfloor>x * 16 + 1 / 2\<rfloor> \<le> \<lfloor>y * 16 + 1 / 2\<rfloor>" by (rule floor_mono)
    then have "(of_int \<lfloor>x * 16 + 1 / 2\<rfloor> :: rat) \<le> of_int \<lfloor>y * 16 + 1 / 2\<rfloor>"
      by (simp only: of_int_le_iff)
    then show "round16 x \<le> round16 y" by (simp add: round16_def divide_right_mono)
  qed
  have fixed: "round16 (of_int n / 16) = of_int n / 16" for n
  proof -
    have "\<lfloor>(of_int n :: rat) + 1 / 2\<rfloor> = n" by (simp add: floor_unique)
    then show ?thesis by (simp add: round16_def)
  qed
  have i: "round16 (round16 x) = round16 x" for x
    unfolding round16_def [of x] by (rule fixed)
  have "round16 0 = 0" "round16 (1 / 2) = 1 / 2" "round16 1 = 1" "round16 255 = 255"
    using fixed [of 0] fixed [of 8] fixed [of 16] fixed [of 4080] by simp_all
  with m i show ?thesis by (simp add: rounding_def)
qed

text \<open>
  C9.  For a canvas whose pixels all have alpha 1.0 the flattened output does not
  depend on the background colour: two canvases that differ in the background only
  give the same result.  Where the canvas has its \<open>width \<times> height\<close> pixels, with
  channels within 0..1, the output is, pixel after pixel, the bytes
  \<open>floor (channel \<times> 255)\<close> of r, g and b, the product being the floating-point one.
\<close>

theorem bytes_opaque_ignores_background:
  assumes "rounding rnd" and "\<forall>p \<in> set (canvas c). col_a p = 1"
  shows "bytes rnd (c\<lparr>bgcolor := bg1\<rparr>) = bytes rnd (c\<lparr>bgcolor := bg2\<rparr>)
       \<and> (well_sized c \<and> 0 \<le> width c * height c \<and> channels_ok c \<longrightarrow>
            bytes rnd c = Inr (concat (map (opaque_triple rnd) (canvas c))))"
  using assms by (auto intro: bytes_ignores_background bytes_opaque)

theorem bytes_opaque_ignores_background_witness:
  "bytes round16 (\<lparr>width = 2, height = 1, bgcolor = \<lparr>col_r = 0, col_g = 0, col_b = 0, col_a = 1\<rparr>,
          canvas = [\<lparr>col_r = 3 / 16, col_g = 1, col_b = 0, col_a = 1\<rparr>,
                    \<lparr>col_r = 1 / 16, col_g = 1 / 2, col_b = 1, col_a = 1\<rparr>]\<rparr>
          \<lparr>bgcolor := \<lparr>col_r = 1, col_g = 1, col_b = 1, col_a = 1\<rparr>\<rparr>)
     = bytes round16 (\<lparr>width = 2, height = 1, bgcolor = \<lparr>col_r = 0, col_g = 0, col_b = 0, col_a = 1\<rparr>,
          canvas = [\<lparr>col_r = 3 / 16, col_g = 1, col_b = 0, col_a = 1\<rparr>,
                    \<lparr>col_r = 1 / 16, col_g = 1 / 2, col_b = 1, col_a = 1\<rparr>]\<rparr>
          \<lparr>bgcolor := \<lparr>col_r = 1 / 2, col_g = 0, col_b = 1, col_a = 0\<rparr>\<rparr>)
   \<and> bytes round16 \<lparr>width = 2, height = 1, bgcolor = \<lparr>col_r = 0, col_g = 0, col_b = 0, col_a = 1\<rparr>,
          canvas = [\<lparr>col_r = 3 / 16, col_g = 1, col_b = 0, col_a = 1\<rparr>,
                    \<lparr>col_r = 1 / 16, col_g = 1 / 2, col_b = 1, col_a = 1\<rparr>]\<rparr>
     = Inr (concat (map (opaque_triple round16)
          [\<lparr>col_r = 3 / 16, col_g = 1, col_b = 0, col_a = 1\<rparr>,
           \<lparr>col_r = 1 / 16, col_g = 1 / 2, col_b = 1, col_a = 1\<rparr>]))"
  using bytes_opaque_ignores_background [of round16
      "\<lparr>width = 2, height = 1, bgcolor = \<lparr>col_r = 0, col_g = 0, col_b = 0, col_a = 1\<rparr>,
          canvas = [\<lparr>col_r = 3 / 16, col_g = 1, col_b = 0, col_a = 1\<rparr>,
                    \<lparr>col_r = 1 / 16, col_g = 1 / 2, col_b = 1, col_a = 1\<rparr>]\<rparr>"
      "\<lparr>col_r = 1, col_g = 1, col_b = 1, col_a = 1\<rparr>"
      "\<lparr>col_r = 1 / 2, col_g = 0, col_b = 1, col_a = 0\<rparr>"]
    rounding_round16
  by (simp add: well_sized_def channels_ok_def valid_color_def)

text \<open>The bytes of that canvas.\<close>

lemma bytes_round16_example:
  "bytes round16 \<lparr>width = 2, height = 1, bgcolor = \<lparr>col_r = 0, col_g = 0, col_b = 0, col_a = 1\<rparr>,
          canvas = [\<lparr>col_r = 3 / 16, col_g = 1, col_b = 0, col_a = 1\<rparr>,
                    \<lparr>col_r = 1 / 16, col_g = 1 / 2, col_b = 1, col_a = 1\<rparr>]\<rparr>
     = Inr [47, 255, 0, 15, 127, 255]"
  by code_simp

subsection \<open>Extracting a rectangle and blending it back\<close>

lemma cell_divmod:
  fixes i j w :: int
  assumes "0 \<le> i" "i < w"
  shows "(j * w + i) mod w = i" and "(j * w + i) div w = j"
  using assms by simp_all

lemma canvas_at_in_bounds:
  assumes "length (canvas self) = nat (width self * height self)"
    and "0 \<le> px" "px \<le> width self - 1" "0 \<le> py" "py \<le> height self - 1"
  shows "canvas_at self px py = Inr (canvas self ! nat (py * width self + px))"
proof -
  have k: "0 \<le> py * width self + px" "py * width self + px < width self * height self"
    using cell_index_bounds [OF assms(2-5)] by simp_all
  have "coordinate_to_index self px py = Inr (py * width self + px)"
    using assms(2-5) by (simp add: coordinate_to_index_def mult.commute)
  then show ?thesis
    using k assms(1) by (simp add: canvas_at_def bindE_def py_getitem_in_range)
qed

lemma rect_result:
  assumes ws: "well_sized self"
    and b: "0 \<le> x" "x \<le> width self - 1" "0 \<le> y" "y \<le> height self - 1"
      "0 \<le> w" "0 \<le> h" "x + w \<le> width self" "y + h \<le> height self"
  shows "rect self x y w h =
           Inr \<lparr>width = w, height = h, bgcolor = bgcolor self,
                canvas = map (\<lambda>k. canvas self ! nat ((y + int k div w) * width self + (x + int k mod w)))
                           [0..<nat (w * h)]\<rparr>"
proof -
  define g where "g k = canvas self ! nat ((y + int k div w) * width self + (x + int k mod w))" for k
  define N where "N = nat (w * h)"
  define wn where "wn = nat w"
  define cv0 where "cv0 = map (\<lambda>_. bgcolor self) (py_range (w * h))"
  have len: "length (canvas self) = nat (width self * height self)"
    using ws by (simp add: well_sized_def)
  have N: "N = nat h * wn" using b by (simp add: N_def wn_def nat_mult_distrib mult.commute)
  have len0: "length cv0 = N" by (simp add: cv0_def py_range_def N_def)
  let ?Io = "\<lambda>j cv. length cv = N \<and> (\<forall>k < j * wn. cv ! k = g k)"
  have outer: "\<exists>s'. for_each (\<lambda>ty. for_each (rect_body self x y w ty) (py_range w)) (py_range h) cv0
                  = Inr s' \<and> ?Io (length (py_range h)) s'"
  proof (rule for_each_rule [where I = ?Io])
    show "?Io 0 cv0" using len0 by simp
  next
    fix j t assume j: "j < length (py_range h)" and t: "?Io j t"
    from j have j': "j < nat h" by (simp add: py_range_def)
    then have tyj: "py_range h ! j = int j" by (simp add: py_range_def)
    let ?Ii = "\<lambda>i cv. length cv = N \<and> (\<forall>k < j * wn + i. cv ! k = g k)"
    have "\<exists>s'. for_each (rect_body self x y w (int j)) (py_range w) t = Inr s'
            \<and> ?Ii (length (py_range w)) s'"
    proof (rule for_each_rule [where I = ?Ii])
      show "?Ii 0 t" using t by simp
    next
      fix i u assume i: "i < length (py_range w)" and u: "?Ii i u"
      from i have i': "i < wn" by (simp add: py_range_def wn_def)
      then have txi: "py_range w ! i = int i" by (simp add: py_range_def wn_def)
      have iw: "int i < w" using i' by (simp add: wn_def)
      have jh: "int j < h" using j' by simp
      have px: "0 \<le> x + int i" "x + int i \<le> width self - 1" using b iw by simp_all
      have py: "0 \<le> y + int j" "y + int j \<le> height self - 1" using b jh by simp_all
      have at: "canvas_at self (x + int i) (y + int j)
                  = Inr (canvas self ! nat ((y + int j) * width self + (x + int i)))"
        using len px py by (rule canvas_at_in_bounds)
      have m: "j * wn + i < N"
      proof -
        have "j * wn + i < j * wn + wn" using i' by simp
        also have "\<dots> = Suc j * wn" by simp
        also have "\<dots> \<le> nat h * wn" using j' by (intro mult_le_mono1) simp
        finally show ?thesis by (simp add: N)
      qed
      have im: "int j * w + int i = int (j * wn + i)" using b by (simp add: wn_def)
      have "(int j * w + int i) mod w = int i" "(int j * w + int i) div w = int j"
        using iw by (simp_all add: cell_divmod)
      then have dm: "int (j * wn + i) mod w = int i" "int (j * wn + i) div w = int j"
        unfolding im by simp_all
      have gm: "g (j * wn + i) = canvas self ! nat ((y + int j) * width self + (x + int i))"
        by (simp only: g_def dm)
      have st: "py_setitem u (int j * w + int i) c = Inr (u[j * wn + i := c])" for c
      proof -
        have "py_setitem u (int (j * wn + i)) c = Inr (u[nat (int (j * wn + i)) := c])"
        proof (rule py_setitem_in_range)
          show "0 \<le> int (j * wn + i)" by (rule of_nat_0_le_iff)
          have "j * wn + i < length u" using m u by simp
          then show "int (j * wn + i) < int (length u)" by (simp only: of_nat_less_iff)
        qed
        then show ?thesis by (simp only: im nat_int)
      qed
      have body: "rect_body self x y w (int j) (int i) u = Inr (u[j * wn + i := g (j * wn + i)])"
        by (simp add: rect_body_def at bindE_def st gm)
      have "?Ii (Suc i) (u[j * wn + i := g (j * wn + i)])"
        using u m by (auto simp: nth_list_update less_Suc_eq)
      with body txi
      show "\<exists>t'. rect_body self x y w (int j) (py_range w ! i) u = Inr t' \<and> ?Ii (Suc i) t'"
        by simp
    qed
    then obtain s' where s': "for_each (rect_body self x y w (int j)) (py_range w) t = Inr s'"
      and inv: "?Ii (length (py_range w)) s'" by blast
    have "length (py_range w) = wn" by (simp add: py_range_def wn_def)
    with inv have "?Io (Suc j) s'" by (simp add: add.commute)
    with s' tyj
    show "\<exists>t'. for_each (rect_body self x y w (py_range h ! j)) (py_range w) t = Inr t'
            \<and> ?Io (Suc j) t'" by simp
  qed
  then obtain cv where loop: "for_each (\<lambda>ty. for_each (rect_body self x y w ty) (py_range w))
        (py_range h) cv0 = Inr cv" and inv: "?Io (length (py_range h)) cv" by blast
  have "length (py_range h) = nat h" by (simp add: py_range_def)
  with inv have "length cv = N" and "\<forall>k < N. cv ! k = g k" by (simp_all add: N)
  then have cv: "cv = map g [0..<N]" by (intro nth_equalityI) simp_all
  have "rect self x y w h = Inr ((Canvas_init w h (bgcolor self))\<lparr>canvas := cv\<rparr>)"
    using b loop by (simp add: rect_def Let_def bindE_def Canvas_init_def clear_def cv0_def not_less)
  then show ?thesis by (simp add: cv g_def N_def Canvas_init_def clear_def)
qed

lemma cell_of_index:
  fixes k w h :: int
  assumes "0 \<le> k" "k < w * h" "0 \<le> w" "0 \<le> h"
  shows "0 < w" and "0 \<le> k mod w" and "k mod w < w" and "0 \<le> k div w" and "k div w < h"
proof -
  show w: "0 < w"
  proof (rule ccontr)
    assume "\<not> 0 < w"
    with assms(3) have "w = 0" by simp
    with assms(1,2) show False by simp
  qed
  show m0: "0 \<le> k mod w" using w by simp
  show "k mod w < w" using w by simp
  show "0 \<le> k div w" using w assms(1) by (simp add: pos_imp_zdiv_nonneg_iff)
  show "k div w < h"
  proof (rule ccontr)
    assume "\<not> k div w < h"
    then have "h \<le> k div w" by simp
    then have "w * h \<le> w * (k div w)" using w by (intro mult_left_mono) simp_all
    also have "\<dots> \<le> w * (k div w) + k mod w" using m0 by linarith
    also have "\<dots> = k" by (rule mult_div_mod_eq)
    finally show False using assms(2) by simp
  qed
qed

lemma row_col_unique:
  fixes a b c d w W :: int
  assumes eq: "a * W + c = b * W + d"
    and r: "0 \<le> c" "c < w" "0 \<le> d" "d < w" "w \<le> W"
  shows "a = b" and "c = d"
proof -
  have W: "0 \<le> W" using r by linarith
  have no: "\<not> p < q" if "p * W + e = q * W + f" "0 \<le> e" "e < w" "0 \<le> f" for p q e f :: int
  proof
    assume "p < q"
    then have "p + 1 \<le> q" by simp
    then have "(p + 1) * W \<le> q * W" using W by (rule mult_right_mono)
    then have "p * W + W \<le> q * W" by (simp add: algebra_simps)
    with that r(5) show False by linarith
  qed
  have "\<not> a < b" using no [OF eq r(1,2,3)] .
  moreover have "\<not> b < a" using no [OF eq [symmetric] r(3,4,1)] .
  ultimately show "a = b" by simp
  with eq show "c = d" by simp
qed

lemma blend_opaque_source:
  assumes dst: "length (canvas dst) = nat (width dst * height dst)"
    and src: "length ps = nat (w * h)" "0 \<le> w" "0 \<le> h"
    and fit: "0 \<le> x" "0 \<le> y" "x + w \<le> width dst" "y + h \<le> height dst"
    and op: "\<forall>p \<in> set ps. 999999 / 1000000 \<le> col_a p"
  shows "\<exists>cv. blend dst \<lparr>width = w, height = h, bgcolor = bg, canvas = ps\<rparr> x y ign
                 = (dst\<lparr>canvas := cv\<rparr>, None)
          \<and> length cv = length (canvas dst)
          \<and> (\<forall>k < length ps. cv ! nat ((y + int k div w) * width dst + (x + int k mod w)) = ps ! k)"
proof -
  define W where "W = width dst"
  define H where "H = height dst"
  define idx where "idx k = nat ((y + int k div w) * W + (x + int k mod w))" for k
  define L where "L = length (canvas dst)"
  have cell: "0 < w \<and> 0 \<le> int k mod w \<and> int k mod w < w \<and> 0 \<le> int k div w \<and> int k div w < h"
    if "k < length ps" for k
  proof -
    have "k < nat (w * h)" using that src(1) by simp
    then have "int k < w * h" by linarith
    then show ?thesis using cell_of_index [of "int k" w h] src(2,3) by simp
  qed
  have target: "0 \<le> x + int k mod w \<and> x + int k mod w \<le> W - 1
      \<and> 0 \<le> y + int k div w \<and> y + int k div w \<le> H - 1" if "k < length ps" for k
    using cell [OF that] fit by (simp add: W_def H_def)
  have idx_int: "int (idx k) = (y + int k div w) * W + (x + int k mod w)"
    and idx_less: "idx k < L" if "k < length ps" for k
  proof -
    from target [OF that] have t: "0 \<le> x + int k mod w" "x + int k mod w \<le> W - 1"
      "0 \<le> y + int k div w" "y + int k div w \<le> H - 1" by simp_all
    note c = cell_index_bounds [OF t]
    show "int (idx k) = (y + int k div w) * W + (x + int k mod w)"
      using c(1) by (simp add: idx_def)
    have "nat ((y + int k div w) * W + (x + int k mod w)) < nat (W * H)"
      using c by linarith
    then show "idx k < L" using dst by (simp add: idx_def L_def W_def H_def)
  qed
  have inj: "k = n" if "k < length ps" "n < length ps" "idx k = idx n" for k n
  proof -
    have "(y + int k div w) * W + (x + int k mod w) = (y + int n div w) * W + (x + int n mod w)"
      using idx_int [OF that(1)] idx_int [OF that(2)] that(3) by simp
    then have e: "(int k div w) * W + int k mod w = (int n div w) * W + int n mod w"
      by (simp add: algebra_simps)
    have wW: "w \<le> W" using fit by (simp add: W_def)
    from cell [OF that(1)] cell [OF that(2)]
    have r: "0 \<le> int k mod w" "int k mod w < w" "0 \<le> int n mod w" "int n mod w < w" by simp_all
    note u = row_col_unique [OF e r wW]
    have "int k = (int k div w) * w + int k mod w" by simp
    also have "\<dots> = (int n div w) * w + int n mod w" by (simp only: u)
    also have "\<dots> = int n" by simp
    finally show ?thesis by simp
  qed
  let ?src = "\<lparr>width = w, height = h, bgcolor = bg, canvas = ps\<rparr>"
  let ?body = "blend_body dst w x y ign"
  let ?I = "\<lambda>n cv. length cv = L \<and> (\<forall>k < n. cv ! idx k = ps ! k)"
  have "\<exists>s'. for_loop ?body (enumerate 0 ps) (canvas dst) = (s', None)
          \<and> ?I (length (enumerate 0 ps)) s'"
  proof (rule for_loop_rule [where I = ?I])
    show "?I 0 (canvas dst)" by (simp add: L_def)
  next
    fix n t assume n: "n < length (enumerate 0 ps)" and t: "?I n t"
    from n have n': "n < length ps" by simp
    then have nth: "enumerate 0 ps ! n = (n, ps ! n)" by (simp add: nth_enumerate_eq)
    have w0: "w \<noteq> 0" using cell [OF n'] by simp
    note tg = target [OF n']
    have k: "0 \<le> (y + int n div w) * W + (x + int n mod w)"
      "(y + int n div w) * W + (x + int n mod w) < int (length t)"
      using idx_int [OF n'] idx_less [OF n'] t by simp_all
    have "ps ! n \<in> set ps" using n' by simp
    with op have "999999 / 1000000 \<le> col_a (ps ! n)" by blast
    then have px: "blend_pixel ign (ps ! n) d = Inr (ps ! n)" for d
      by (simp add: blend_pixel_opaque)
    have "?body (n, ps ! n) t =
            bindE (py_getitem t ((y + int n div w) * W + (x + int n mod w))) (\<lambda>dst_color.
            bindE (blend_pixel ign (ps ! n) dst_color) (\<lambda>c.
              py_setitem t ((y + int n div w) * W + (x + int n mod w)) c))"
      using w0 tg by (simp add: blend_body_def Let_def W_def H_def not_less)
    also have "\<dots> = Inr (t[idx n := ps ! n])"
      using k by (simp add: py_getitem_in_range py_setitem_in_range bindE_def px idx_def)
    finally have body: "?body (n, ps ! n) t = Inr (t[idx n := ps ! n])" .
    have "?I (Suc n) (t[idx n := ps ! n])"
    proof (intro conjI allI impI)
      show "length (t[idx n := ps ! n]) = L" using t by simp
    next
      fix k assume "k < Suc n"
      show "t[idx n := ps ! n] ! idx k = ps ! k"
      proof (cases "k = n")
        case True
        then show ?thesis using idx_less [OF n'] t by simp
      next
        case False
        with \<open>k < Suc n\<close> have kn: "k < n" by simp
        then have "k < length ps" using n' by simp
        then have "idx k \<noteq> idx n" using inj [of k n] n' False by blast
        then show ?thesis using t kn by simp
      qed
    qed
    with body nth show "\<exists>t'. ?body (enumerate 0 ps ! n) t = Inr t' \<and> ?I (Suc n) t'" by simp
  qed
  then obtain cv where loop: "for_loop ?body (enumerate 0 ps) (canvas dst) = (cv, None)"
    and inv: "?I (length ps) cv" by auto
  have "blend dst ?src x y ign = (dst\<lparr>canvas := cv\<rparr>, None)"
    using loop by (simp add: blend_def)
  then show ?thesis using inv by (auto simp: L_def idx_def W_def)
qed

subsection \<open>Blending a transparent source, in floating-point arithmetic\<close>

lemma fl_blend_exact: "fl_blend id self src ox oy ign = blend self src ox oy ign"
proof -
  have pe: "fl_blend_pixel id i s d = blend_pixel i s d" for i s d
    by (simp add: fl_blend_pixel_def blend_pixel_def Let_def)
  have "fl_blend_body id = blend_body"
    by (intro ext) (simp add: fl_blend_body_def blend_body_def pe Let_def split: prod.split)
  then show ?thesis by (simp add: fl_blend_def blend_def)
qed

lemma fl_blend_pixel_transparent:
  assumes R: "rounding rnd" and s: "col_a s = 0"
    and d: "1 / 1000000 \<le> col_a d" and rep: "rnd (col_a d) = col_a d"
  shows "fl_blend_pixel rnd False s d = Inr (recomputed rnd d)"
proof -
  from R have r0: "rnd 0 = 0" and rh: "rnd (1 / 2) = 1 / 2" and r1: "rnd 1 = 1"
    and idem: "\<And>x. rnd (rnd x) = rnd x"
    by (simp_all add: rounding_def)
  have "rnd (1 / 2) \<le> rnd (999999 / 1000000)" by (rule rounding_mono [OF R]) simp
  then have t1: "\<not> 0 \<ge> rnd (999999 / 1000000)" using rh by simp
  have "rnd (1 / 1000000) \<le> rnd (col_a d)" using d by (rule rounding_mono [OF R])
  then have t2: "\<not> col_a d < rnd (1 / 1000000)" using rep by simp
  have nz: "col_a d \<noteq> 0" using d by auto
  have ch: "rnd (rnd (rnd (c * 0) + rnd (rnd (e * col_a d) * rnd (1 - 0))) / col_a d)
              = rnd (rnd (e * col_a d) / col_a d)" for c e
    by (simp add: r0 r1 idem)
  have na: "rnd (0 + rnd (col_a d * rnd (1 - 0))) = col_a d"
    by (simp add: r1 rep)
  show ?thesis
    unfolding fl_blend_pixel_def s Let_def na ch
    using t1 t2 nz by (simp add: recomputed_def)
qed

lemma recomputed_alpha: "col_a (recomputed rnd p) = col_a p"
  by (simp add: recomputed_def)

lemma recomputed_exact: "col_a p \<noteq> 0 \<Longrightarrow> recomputed id p = p"
  by (simp add: recomputed_def)

lemma blend_target_unique:
  assumes w: "width src \<noteq> 0"
    and i: "blend_target dst src ox oy i = Some K"
    and j: "blend_target dst src ox oy j = Some K"
  shows "i = j"
proof -
  define w where "w = width src"
  define W where "W = width dst"
  from i have bi: "0 \<le> ox + int i mod w" "ox + int i mod w < W"
    and Ki: "K = (oy + int i div w) * W + (ox + int i mod w)"
    by (auto simp: blend_target_def Let_def w_def W_def split: if_splits)
  from j have bj: "0 \<le> ox + int j mod w" "ox + int j mod w < W"
    and Kj: "K = (oy + int j div w) * W + (ox + int j mod w)"
    by (auto simp: blend_target_def Let_def w_def W_def split: if_splits)
  have e: "(oy + int i div w) * W + (ox + int i mod w) = (oy + int j div w) * W + (ox + int j mod w)"
    using Ki Kj by simp
  have WW: "W \<le> W" by simp
  note u = row_col_unique [OF e bi bj WW]
  have "int i = int i div w * w + int i mod w" by simp
  also have "\<dots> = int j div w * w + int j mod w" using u by simp
  also have "\<dots> = int j" by simp
  finally show ?thesis by simp
qed

lemma blend_target_range:
  assumes "blend_target dst src ox oy i = Some K"
    and "length (canvas dst) = nat (width dst * height dst)"
  shows "0 \<le> K" and "K < int (length (canvas dst))"
proof -
  from assms(1) have b: "0 \<le> ox + int i mod width src" "ox + int i mod width src \<le> width dst - 1"
      "0 \<le> oy + int i div width src" "oy + int i div width src \<le> height dst - 1"
    and K: "K = (oy + int i div width src) * width dst + (ox + int i mod width src)"
    by (auto simp: blend_target_def Let_def split: if_splits)
  note c = cell_index_bounds [OF b]
  show "0 \<le> K" using c(1) K by simp
  show "K < int (length (canvas dst))" using c K assms(2) by simp
qed

lemma fl_blend_body_target:
  assumes "width src \<noteq> 0"
  shows "fl_blend_body rnd dst (width src) ox oy ign (i, sc) cv =
           (case blend_target dst src ox oy i of
              None \<Rightarrow> Inr cv
            | Some K \<Rightarrow> bindE (py_getitem cv K) (\<lambda>dst_color.
                         bindE (fl_blend_pixel rnd ign sc dst_color) (\<lambda>c. py_setitem cv K c)))"
  using assms by (simp add: fl_blend_body_def blend_target_def Let_def)

lemma covered_iff:
  "covered dst src ox oy k \<longleftrightarrow> (\<exists>i < length (canvas src). blend_target dst src ox oy i = Some (int k))"
  by (auto simp: covered_def list_ex_iff)

text \<open>
  C1 (as amended).  Blending a source whose pixels all have alpha 0, with
  \<^verbatim>\<open>ignore_src_alpha\<close> false, onto a destination whose pixels all have alpha at
  least 0.000001 succeeds, for all offsets.  It leaves the alpha of every destination
  pixel exactly as it was and does not change a pixel that no source pixel falls on; a
  pixel that a source pixel falls on has each colour channel \<open>c\<close> recomputed, in
  floating-point arithmetic, as \<open>(c \<times> alpha) / alpha\<close>.
\<close>

theorem blend_transparent_source:
  assumes R: "rounding rnd"
    and wd: "well_sized dst" and wsrc: "well_sized src"
    and sa: "\<forall>p \<in> set (canvas src). col_a p = 0"
    and da: "\<forall>p \<in> set (canvas dst). 1 / 1000000 \<le> col_a p \<and> rnd (col_a p) = col_a p"
  shows "\<exists>cv. fl_blend rnd dst src offset_x offset_y False = (dst\<lparr>canvas := cv\<rparr>, None)
           \<and> length cv = length (canvas dst)
           \<and> (\<forall>k < length cv. col_a (cv ! k) = col_a (canvas dst ! k))
           \<and> (\<forall>k < length cv. cv ! k =
                 (if covered dst src offset_x offset_y k
                  then recomputed rnd (canvas dst ! k) else canvas dst ! k))"
proof -
  define ps where "ps = canvas src"
  define d where "d = canvas dst"
  define L where "L = length d"
  define T where "T = blend_target dst src offset_x offset_y"
  let ?body = "fl_blend_body rnd dst (width src) offset_x offset_y False"
  let ?I = "\<lambda>n cv. length cv = L \<and>
      (\<forall>k < L. cv ! k = (if \<exists>i < n. T i = Some (int k) then recomputed rnd (d ! k) else d ! k))"
  have dlen: "length (canvas dst) = nat (width dst * height dst)"
    using wd by (simp add: well_sized_def)
  have "\<exists>s'. for_loop ?body (enumerate 0 ps) d = (s', None) \<and> ?I (length (enumerate 0 ps)) s'"
  proof (rule for_loop_rule [where I = ?I])
    show "?I 0 d" by (simp add: L_def)
  next
    fix n t assume n: "n < length (enumerate 0 ps)" and t: "?I n t"
    from n have n': "n < length ps" by simp
    then have nth: "enumerate 0 ps ! n = (n, ps ! n)" by (simp add: nth_enumerate_eq)
    have w0: "width src \<noteq> 0" using n' wsrc by (auto simp: well_sized_def ps_def)
    have sn: "col_a (ps ! n) = 0" using n' sa by (simp add: ps_def)
    note body = fl_blend_body_target [OF w0, of rnd dst offset_x offset_y False n "ps ! n" t,
        folded T_def]
    show "\<exists>t'. ?body (enumerate 0 ps ! n) t = Inr t' \<and> ?I (Suc n) t'"
    proof (cases "T n")
      case None
      then have "?body (n, ps ! n) t = Inr t" using body by simp
      moreover have "(\<exists>i < Suc n. T i = Some (int k)) \<longleftrightarrow> (\<exists>i < n. T i = Some (int k))" for k
        using None by (auto simp: less_Suc_eq)
      ultimately show ?thesis using t nth by simp
    next
      case (Some K)
      have Kr: "0 \<le> K" "K < int L"
        using blend_target_range [OF Some [unfolded T_def] dlen] by (simp_all add: L_def d_def)
      define k0 where "k0 = nat K"
      have K: "K = int k0" and k0: "k0 < L" using Kr by (simp_all add: k0_def)
      have fresh: "\<not> (\<exists>i < n. T i = Some (int k0))"
      proof
        assume "\<exists>i < n. T i = Some (int k0)"
        then obtain i where i: "i < n" "T i = Some K" using K by auto
        from blend_target_unique [OF w0 i(2) [unfolded T_def] Some [unfolded T_def]] i(1)
        show False by simp
      qed
      from t k0 have "t ! k0 = (if \<exists>i < n. T i = Some (int k0)
                                then recomputed rnd (d ! k0) else d ! k0)" by blast
      then have old: "t ! k0 = d ! k0" by (simp only: fresh if_False)
      have "d ! k0 \<in> set (canvas dst)" using k0 by (simp add: L_def d_def)
      with da have "1 / 1000000 \<le> col_a (d ! k0)" "rnd (col_a (d ! k0)) = col_a (d ! k0)"
        by blast+
      with R sn have px: "fl_blend_pixel rnd False (ps ! n) (d ! k0) = Inr (recomputed rnd (d ! k0))"
        by (rule fl_blend_pixel_transparent)
      have Kt: "K < int (length t)" using Kr t by simp
      have b: "?body (n, ps ! n) t = Inr (t[k0 := recomputed rnd (d ! k0)])"
        using body Some Kr(1) Kt old px
        by (simp add: py_getitem_in_range py_setitem_in_range bindE_def k0_def)
      have "?I (Suc n) (t[k0 := recomputed rnd (d ! k0)])"
      proof (intro conjI allI impI)
        show "length (t[k0 := recomputed rnd (d ! k0)]) = L" using t by simp
      next
        fix k assume k: "k < L"
        show "t[k0 := recomputed rnd (d ! k0)] ! k
                = (if \<exists>i < Suc n. T i = Some (int k) then recomputed rnd (d ! k) else d ! k)"
        proof (cases "k = k0")
          case True
          have "\<exists>i < Suc n. T i = Some (int k)" using Some K True by auto
          then show ?thesis using True k t by simp
        next
          case False
          then have "T n \<noteq> Some (int k)" using Some K by simp
          then have "(\<exists>i < Suc n. T i = Some (int k)) \<longleftrightarrow> (\<exists>i < n. T i = Some (int k))"
            by (auto simp: less_Suc_eq)
          then show ?thesis using False k t by simp
        qed
      qed
      with b nth show ?thesis by simp
    qed
  qed
  then obtain cv where loop: "for_loop ?body (enumerate 0 ps) d = (cv, None)"
    and len: "length cv = L"
    and px: "\<forall>k < L. cv ! k =
        (if \<exists>i < length ps. T i = Some (int k) then recomputed rnd (d ! k) else d ! k)"
    by auto
  have cov: "(\<exists>i < length ps. T i = Some (int k)) \<longleftrightarrow> covered dst src offset_x offset_y k" for k
    by (simp add: covered_iff T_def ps_def)
  have "fl_blend rnd dst src offset_x offset_y False = (dst\<lparr>canvas := cv\<rparr>, None)"
    using loop by (simp add: fl_blend_def ps_def d_def)
  moreover have "\<forall>k < length cv. cv ! k =
      (if covered dst src offset_x offset_y k then recomputed rnd (canvas dst ! k) else canvas dst ! k)"
    using px len by (simp add: cov d_def)
  moreover from this have "\<forall>k < length cv. col_a (cv ! k) = col_a (canvas dst ! k)"
    by (simp add: recomputed_alpha)
  ultimately show ?thesis using len by (auto simp: L_def d_def)
qed

lemma round16_three: "round16 (3 / 16) = 3 / 16"
  by code_simp

theorem blend_transparent_source_witness:
  "\<exists>cv. fl_blend round16
          \<lparr>width = 2, height = 1, bgcolor = \<lparr>col_r = 0, col_g = 0, col_b = 0, col_a = 1\<rparr>,
           canvas = [\<lparr>col_r = 3 / 16, col_g = 1, col_b = 0, col_a = 3 / 16\<rparr>,
                     \<lparr>col_r = 3 / 16, col_g = 1, col_b = 0, col_a = 3 / 16\<rparr>]\<rparr>
          (Canvas_init 1 1 \<lparr>col_r = 1, col_g = 1, col_b = 1, col_a = 0\<rparr>) 1 0 False
        = (\<lparr>width = 2, height = 1, bgcolor = \<lparr>col_r = 0, col_g = 0, col_b = 0, col_a = 1\<rparr>,
            canvas = cv\<rparr>, None)
      \<and> length cv = 2
      \<and> col_a (cv ! 0) = 3 / 16 \<and> col_a (cv ! 1) = 3 / 16
      \<and> cv ! 0 = \<lparr>col_r = 3 / 16, col_g = 1, col_b = 0, col_a = 3 / 16\<rparr>
      \<and> cv ! 1 = recomputed round16 \<lparr>col_r = 3 / 16, col_g = 1, col_b = 0, col_a = 3 / 16\<rparr>"
proof -
  let ?p = "\<lparr>col_r = 3 / 16, col_g = 1, col_b = 0, col_a = 3 / 16\<rparr>"
  let ?D = "\<lparr>width = 2, height = 1, bgcolor = \<lparr>col_r = 0, col_g = 0, col_b = 0, col_a = 1\<rparr>,
           canvas = [?p, ?p]\<rparr>"
  let ?S = "Canvas_init 1 1 \<lparr>col_r = 1, col_g = 1, col_b = 1, col_a = 0\<rparr>"
  have S: "?S = \<lparr>width = 1, height = 1, bgcolor = \<lparr>col_r = 1, col_g = 1, col_b = 1, col_a = 0\<rparr>,
                canvas = [\<lparr>col_r = 1, col_g = 1, col_b = 1, col_a = 0\<rparr>]\<rparr>"
    by (simp add: Canvas_init_def clear_def py_range_def)
  have c0: "\<not> covered ?D ?S 1 0 0" and c1: "covered ?D ?S 1 0 1"
    by (simp_all add: S covered_def blend_target_def)
  have "\<exists>cv. fl_blend round16 ?D ?S 1 0 False = (?D\<lparr>canvas := cv\<rparr>, None)
           \<and> length cv = length (canvas ?D)
           \<and> (\<forall>k < length cv. col_a (cv ! k) = col_a (canvas ?D ! k))
           \<and> (\<forall>k < length cv. cv ! k =
                 (if covered ?D ?S 1 0 k then recomputed round16 (canvas ?D ! k) else canvas ?D ! k))"
    by (rule blend_transparent_source)
       (simp_all add: rounding_round16 well_sized_def S round16_three)
  then obtain cv where cv: "fl_blend round16 ?D ?S 1 0 False = (?D\<lparr>canvas := cv\<rparr>, None)"
    and len: "length cv = 2"
    and al: "\<forall>k < length cv. col_a (cv ! k) = col_a (canvas ?D ! k)"
    and px: "\<forall>k < length cv. cv ! k =
        (if covered ?D ?S 1 0 k then recomputed round16 (canvas ?D ! k) else canvas ?D ! k)"
    by auto
  have "cv ! 0 = ?p" using px len c0 by simp
  moreover have "cv ! 1 = recomputed round16 ?p" using px len c1 by simp
  moreover have "col_a (cv ! 0) = 3 / 16" "col_a (cv ! 1) = 3 / 16" using al len by simp_all
  ultimately show ?thesis using cv len by auto
qed

text \<open>With the coarse rounding function the recomputed colour differs visibly: 3/16 times
  3/16 is rounded to 1/16, and 1/16 divided by 3/16 to 5/16.\<close>

lemma blend_round16_example:
  "fl_blend round16
      \<lparr>width = 2, height = 1, bgcolor = \<lparr>col_r = 0, col_g = 0, col_b = 0, col_a = 1\<rparr>,
       canvas = [\<lparr>col_r = 3 / 16, col_g = 1, col_b = 0, col_a = 3 / 16\<rparr>,
                 \<lparr>col_r = 3 / 16, col_g = 1, col_b = 0, col_a = 3 / 16\<rparr>]\<rparr>
      (Canvas_init 1 1 \<lparr>col_r = 1, col_g = 1, col_b = 1, col_a = 0\<rparr>) 1 0 False
    = (\<lparr>width = 2, height = 1, bgcolor = \<lparr>col_r = 0, col_g = 0, col_b = 0, col_a = 1\<rparr>,
        canvas = [\<lparr>col_r = 3 / 16, col_g = 1, col_b = 0, col_a = 3 / 16\<rparr>,
                  \<lparr>col_r = 5 / 16, col_g = 1, col_b = 0, col_a = 3 / 16\<rparr>]\<rparr>, None)"
  by code_simp

text \<open>
  C1 as stated fails: a destination pixel whose alpha is positive and below 0.000001
  is reset to transparent black by the guard that follows the compositing formula.
  No operation on these values is rounded.
\<close>

theorem blend_transparent_source_counterexample:
  "fl_blend id (Canvas_init 1 1 \<lparr>col_r = 1, col_g = 1, col_b = 1, col_a = 1 / 2000000\<rparr>)
         (Canvas_init 1 1 \<lparr>col_r = 0, col_g = 0, col_b = 0, col_a = 0\<rparr>) 0 0 False
   = (\<lparr>width = 1, height = 1, bgcolor = \<lparr>col_r = 1, col_g = 1, col_b = 1, col_a = 1 / 2000000\<rparr>,
       canvas = [\<lparr>col_r = 0, col_g = 0, col_b = 0, col_a = 0\<rparr>]\<rparr>, None)
   \<and> Canvas_init 1 1 \<lparr>col_r = 1, col_g = 1, col_b = 1, col_a = 1 / 2000000\<rparr>
     = \<lparr>width = 1, height = 1, bgcolor = \<lparr>col_r = 1, col_g = 1, col_b = 1, col_a = 1 / 2000000\<rparr>,
       canvas = [\<lparr>col_r = 1, col_g = 1, col_b = 1, col_a = 1 / 2000000\<rparr>]\<rparr>"
  by (simp add: fl_blend_exact blend_def blend_body_def blend_pixel_def Canvas_init_def clear_def
      py_range_def enumerate_eq_zip py_getitem_def py_setitem_def bindE_def Let_def)

lemma in_py_range: "t \<in> set (py_range n) \<longleftrightarrow> 0 \<le> t \<and> t < n"
proof
  assume "t \<in> set (py_range n)"
  then show "0 \<le> t \<and> t < n" by (auto simp: py_range_def)
next
  assume a: "0 \<le> t \<and> t < n"
  then have "nat t \<in> {0..<nat n}" by simp
  then have "int (nat t) \<in> int ` {0..<nat n}" by (rule imageI)
  then show "t \<in> set (py_range n)" using a by (simp add: py_range_def)
qed

text \<open>
  C4 (as amended).  For a canvas with its \<open>width \<times> height\<close> pixels and an in-bounds
  rectangle all of whose pixels have alpha at least 0.999999, \<^verbatim>\<open>rect\<close> succeeds, and
  blending the extracted canvas at the rectangle's origin onto a cleared copy of the
  canvas succeeds and gives, at every position of the rectangle, the pixel that the
  canvas has there.
\<close>

theorem rect_blend_roundtrip_opaque:
  assumes ws: "well_sized self"
    and b: "0 \<le> x" "x \<le> width self - 1" "0 \<le> y" "y \<le> height self - 1"
      "0 \<le> w" "0 \<le> h" "x + w \<le> width self" "y + h \<le> height self"
    and op: "\<forall>ty \<in> set (py_range h). \<forall>tx \<in> set (py_range w). opaque_at self (x + tx) (y + ty)"
  shows "\<exists>r out. rect self x y w h = Inr r
           \<and> blend (clear (copy_canvas self)) r x y False = (out, None)
           \<and> (\<forall>ty \<in> set (py_range h). \<forall>tx \<in> set (py_range w).
                 canvas_at out (x + tx) (y + ty) = canvas_at self (x + tx) (y + ty))"
proof -
  define W where "W = width self"
  define H where "H = height self"
  define g where "g k = canvas self ! nat ((y + int k div w) * W + (x + int k mod w))" for k
  define N where "N = nat (w * h)"
  define ps where "ps = map g [0..<N]"
  define r where "r = \<lparr>width = w, height = h, bgcolor = bgcolor self, canvas = ps\<rparr>"
  define dst where "dst = clear (copy_canvas self)"
  have len: "length (canvas self) = nat (W * H)"
    using ws by (simp add: well_sized_def W_def H_def)
  have rect: "rect self x y w h = Inr r"
    using rect_result [OF ws b] by (simp add: r_def ps_def g_def [abs_def] N_def W_def)
  have dst_dim: "width dst = W" "height dst = H"
    by (simp_all add: dst_def clear_def copy_canvas_def Canvas_init_def W_def H_def)
  have dst_len: "length (canvas dst) = nat (width dst * height dst)"
    by (simp add: dst_def clear_def copy_canvas_def Canvas_init_def py_range_def)
  have at_self: "canvas_at self (x + tx) (y + ty) = Inr (canvas self ! nat ((y + ty) * W + (x + tx)))"
    if "0 \<le> tx" "tx < w" "0 \<le> ty" "ty < h" for tx ty
  proof -
    have "0 \<le> x + tx" "x + tx \<le> width self - 1" "0 \<le> y + ty" "y + ty \<le> height self - 1"
      using that b by simp_all
    with len show ?thesis unfolding W_def H_def by (rule canvas_at_in_bounds)
  qed
  have opq: "\<forall>p \<in> set ps. 999999 / 1000000 \<le> col_a p"
  proof
    fix p assume "p \<in> set ps"
    then obtain k where k: "k < N" and p: "p = g k" by (auto simp: ps_def)
    from k have "int k < w * h" unfolding N_def by linarith
    then have c: "0 \<le> int k mod w" "int k mod w < w" "0 \<le> int k div w" "int k div w < h"
      using cell_of_index [of "int k" w h] b by simp_all
    then have "opaque_at self (x + int k mod w) (y + int k div w)"
      using op by (simp add: in_py_range)
    then show "999999 / 1000000 \<le> col_a p"
      using at_self [OF c] by (simp add: opaque_at_def p g_def)
  qed
  have "length ps = nat (w * h)" by (simp add: ps_def N_def)
  from blend_opaque_source [OF dst_len this b(5,6) b(1,3) _ _ opq, of "bgcolor self" False]
  obtain cv where bl: "blend dst r x y False = (dst\<lparr>canvas := cv\<rparr>, None)"
    and lcv: "length cv = length (canvas dst)"
    and px: "\<forall>k < length ps. cv ! nat ((y + int k div w) * W + (x + int k mod w)) = ps ! k"
    using b by (auto simp: dst_dim r_def W_def H_def)
  define out where "out = dst\<lparr>canvas := cv\<rparr>"
  have out_len: "length (canvas out) = nat (width out * height out)"
    using lcv dst_len by (simp add: out_def)
  have out_dim: "width out = width self" "height out = height self"
    using dst_dim by (simp_all add: out_def W_def H_def)
  have same: "canvas_at out (x + tx) (y + ty) = canvas_at self (x + tx) (y + ty)"
    if t: "0 \<le> tx" "tx < w" "0 \<le> ty" "ty < h" for tx ty
  proof -
    have bb: "0 \<le> x + tx" "x + tx \<le> width out - 1" "0 \<le> y + ty" "y + ty \<le> height out - 1"
      using t b by (simp_all add: out_dim)
    have o: "canvas_at out (x + tx) (y + ty) = Inr (cv ! nat ((y + ty) * W + (x + tx)))"
      using canvas_at_in_bounds [OF out_len bb] by (simp add: out_dim W_def) (simp add: out_def)
    define k where "k = nat (ty * w + tx)"
    have ik: "int k = ty * w + tx" using t by (simp add: k_def)
    have dm: "int k mod w = tx" "int k div w = ty"
      unfolding ik using t by (simp_all add: cell_divmod)
    have "0 \<le> ty * w + tx" "ty * w + tx < w * h"
      using cell_index_bounds [of tx w ty h] t by simp_all
    then have kN: "k < N" unfolding k_def N_def by linarith
    then have "cv ! nat ((y + ty) * W + (x + tx)) = ps ! k"
      using px dm by (auto simp: ps_def)
    also have "\<dots> = canvas self ! nat ((y + ty) * W + (x + tx))"
      using kN by (simp add: ps_def g_def dm)
    finally show ?thesis using o at_self [OF t] by simp
  qed
  have "rect self x y w h = Inr r
      \<and> blend (clear (copy_canvas self)) r x y False = (out, None)
      \<and> (\<forall>ty \<in> set (py_range h). \<forall>tx \<in> set (py_range w).
            canvas_at out (x + tx) (y + ty) = canvas_at self (x + tx) (y + ty))"
    using rect bl same by (simp add: in_py_range dst_def out_def)
  then show ?thesis by blast
qed

lemma py_range_1: "py_range 1 = [0]"
  by (simp add: py_range_def)

theorem rect_blend_roundtrip_opaque_witness:
  "\<exists>r out.
     rect \<lparr>width = 2, height = 1, bgcolor = \<lparr>col_r = 0, col_g = 0, col_b = 0, col_a = 1\<rparr>,
           canvas = [\<lparr>col_r = 1, col_g = 0, col_b = 0, col_a = 1 / 2\<rparr>,
                     \<lparr>col_r = 0, col_g = 1 / 2, col_b = 1, col_a = 1\<rparr>]\<rparr> 1 0 1 1 = Inr r
     \<and> blend (clear (copy_canvas
           \<lparr>width = 2, height = 1, bgcolor = \<lparr>col_r = 0, col_g = 0, col_b = 0, col_a = 1\<rparr>,
           canvas = [\<lparr>col_r = 1, col_g = 0, col_b = 0, col_a = 1 / 2\<rparr>,
                     \<lparr>col_r = 0, col_g = 1 / 2, col_b = 1, col_a = 1\<rparr>]\<rparr>)) r 1 0 False = (out, None)
     \<and> canvas_at out 1 0 = Inr \<lparr>col_r = 0, col_g = 1 / 2, col_b = 1, col_a = 1\<rparr>"
proof -
  let ?S = "\<lparr>width = 2, height = 1, bgcolor = \<lparr>col_r = 0, col_g = 0, col_b = 0, col_a = 1\<rparr>,
           canvas = [\<lparr>col_r = 1, col_g = 0, col_b = 0, col_a = 1 / 2\<rparr>,
                     \<lparr>col_r = 0, col_g = 1 / 2, col_b = 1, col_a = 1\<rparr>]\<rparr>"
  have at: "canvas_at ?S 1 0 = Inr \<lparr>col_r = 0, col_g = 1 / 2, col_b = 1, col_a = 1\<rparr>"
    by (simp add: canvas_at_def coordinate_to_index_def py_getitem_def bindE_def)
  have "\<exists>r out. rect ?S 1 0 1 1 = Inr r
           \<and> blend (clear (copy_canvas ?S)) r 1 0 False = (out, None)
           \<and> (\<forall>ty \<in> set (py_range 1). \<forall>tx \<in> set (py_range 1).
                 canvas_at out (1 + tx) (0 + ty) = canvas_at ?S (1 + tx) (0 + ty))"
    by (rule rect_blend_roundtrip_opaque) (simp_all add: well_sized_def py_range_1 opaque_at_def at)
  then show ?thesis by (simp add: py_range_1 at)
qed

text \<open>
  C4 as stated fails: a pixel of alpha 1/2 extracted and blended onto the cleared copy
  is composited over the background colour, here opaque black.
\<close>

theorem rect_blend_roundtrip_counterexample:
  "rect \<lparr>width = 1, height = 1, bgcolor = \<lparr>col_r = 0, col_g = 0, col_b = 0, col_a = 1\<rparr>,
         canvas = [\<lparr>col_r = 1, col_g = 1, col_b = 1, col_a = 1 / 2\<rparr>]\<rparr> 0 0 1 1
     = Inr \<lparr>width = 1, height = 1, bgcolor = \<lparr>col_r = 0, col_g = 0, col_b = 0, col_a = 1\<rparr>,
         canvas = [\<lparr>col_r = 1, col_g = 1, col_b = 1, col_a = 1 / 2\<rparr>]\<rparr>
   \<and> blend (clear (copy_canvas
         \<lparr>width = 1, height = 1, bgcolor = \<lparr>col_r = 0, col_g = 0, col_b = 0, col_a = 1\<rparr>,
         canvas = [\<lparr>col_r = 1, col_g = 1, col_b = 1, col_a = 1 / 2\<rparr>]\<rparr>))
       \<lparr>width = 1, height = 1, bgcolor = \<lparr>col_r = 0, col_g = 0, col_b = 0, col_a = 1\<rparr>,
         canvas = [\<lparr>col_r = 1, col_g = 1, col_b = 1, col_a = 1 / 2\<rparr>]\<rparr> 0 0 False
     = (\<lparr>width = 1, height = 1, bgcolor = \<lparr>col_r = 0, col_g = 0, col_b = 0, col_a = 1\<rparr>,
         canvas = [\<lparr>col_r = 1 / 2, col_g = 1 / 2, col_b = 1 / 2, col_a = 1\<rparr>]\<rparr>, None)
   \<and> canvas_at \<lparr>width = 1, height = 1, bgcolor = \<lparr>col_r = 0, col_g = 0, col_b = 0, col_a = 1\<rparr>,
         canvas = [\<lparr>col_r = 1, col_g = 1, col_b = 1, col_a = 1 / 2\<rparr>]\<rparr> 0 0
     = Inr \<lparr>col_r = 1, col_g = 1, col_b = 1, col_a = 1 / 2\<rparr>"
  by (simp add: rect_def rect_body_def canvas_at_def coordinate_to_index_def py_getitem_def
      py_setitem_def bindE_def Let_def for_each_def py_range_1 Canvas_init_def clear_def
      copy_canvas_def blend_def blend_body_def blend_pixel_def enumerate_eq_zip)

section \<open>The PNG encoder\<close>

subsection \<open>Chunks\<close>

lemma unat_byte_of_int: "unat (word_of_int k :: byte) = nat (k mod 256)"
  by (simp add: unat_eq_nat_uint uint_word_of_int take_bit_eq_mod)

lemma pack_I_length: "pack_I n = Inr bs \<Longrightarrow> length bs = 4"
  by (auto simp: pack_I_def split: if_splits)

lemma pack_I_value:
  assumes "pack_I n = Inr bs"
  shows "int (be_value bs) = n"
proof -
  define q1 where "q1 = n div 256"
  define q2 where "q2 = q1 div 256"
  define q3 where "q3 = q2 div 256"
  have d2: "n div 65536 = q2"
    using zdiv_zmult2_eq [of 256 n 256] by (simp add: q1_def q2_def)
  have d3: "n div 16777216 = q3"
    using zdiv_zmult2_eq [of 256 n 65536] d2 by (simp add: q3_def)
  from assms have n: "0 \<le> n" "n < 4294967296"
    and bs: "bs = [word_of_int q3, word_of_int q2, word_of_int q1, word_of_int n]"
    by (auto simp: pack_I_def d2 d3 q1_def [symmetric] split: if_splits)
  have q3b: "0 \<le> q3" "q3 < 256" using n unfolding d3 [symmetric] by simp_all
  define m0 where "m0 = n mod 256"
  define m1 where "m1 = q1 mod 256"
  define m2 where "m2 = q2 mod 256"
  have e0: "n = 256 * q1 + m0" by (simp add: q1_def m0_def)
  have e1: "q1 = 256 * q2 + m1" by (simp add: q2_def m1_def)
  have e2: "q2 = 256 * q3 + m2" by (simp add: q3_def m2_def)
  have e3: "q3 mod 256 = q3" using q3b by simp
  have u: "int (unat (word_of_int k :: byte)) = k mod 256" for k
    by (simp add: unat_byte_of_int)
  have "be_value bs = ((unat (word_of_int q3 :: byte) * 256 + unat (word_of_int q2 :: byte)) * 256
            + unat (word_of_int q1 :: byte)) * 256 + unat (word_of_int n :: byte)"
    by (simp add: bs be_value_def)
  then have "int (be_value bs)
          = ((q3 mod 256 * 256 + q2 mod 256) * 256 + q1 mod 256) * 256 + n mod 256"
    by (simp only: of_nat_add of_nat_mult u of_nat_numeral)
  also have "\<dots> = ((q3 * 256 + m2) * 256 + m1) * 256 + m0"
    by (simp only: e3 m0_def m1_def m2_def)
  also have "\<dots> = n" by (subst e0, subst e1, subst e2) (simp add: algebra_simps)
  finally show ?thesis .
qed

lemma pack_I_in_range: "0 \<le> n \<Longrightarrow> n < 2 ^ 32 \<Longrightarrow> \<exists>bs. pack_I n = Inr bs"
  by (simp add: pack_I_def)

lemma crc32_continue: "crc32 data (crc32 type 0) = crc32 (type @ data) 0"
  by (simp add: crc32_def)

text \<open>
  C5.  For a four-byte type tag and a payload whose length fits the four-byte length
  field, \<^verbatim>\<open>write_chunk\<close> succeeds and appends to the sink exactly: four bytes that
  read, most significant byte first, as the length of the payload; the type tag; the
  payload; four bytes that read, most significant byte first, as the CRC-32 of the
  type tag followed by the payload.
\<close>

theorem write_chunk_layout:
  assumes "length type = 4" and "length data < 2 ^ 32"
  shows "\<exists>len crc.
           write_chunk self type data = (self\<lparr>stream := stream self @ len @ type @ data @ crc\<rparr>, None)
         \<and> length len = 4 \<and> be_value len = length data
         \<and> length crc = 4 \<and> be_value crc = unat (crc32 (type @ data) 0)"
proof -
  have "int (length data) < int (2 ^ 32)" using assms(2) by (simp only: of_nat_less_iff)
  then have "int (length data) < 2 ^ 32" by simp
  then obtain len where len: "pack_I (int (length data)) = Inr len"
    using pack_I_in_range [of "int (length data)"] by auto
  have "uint (crc32 (type @ data) 0) < 2 ^ 32"
    using uint_bounded [of "crc32 (type @ data) 0"] by simp
  then obtain crc where crc: "pack_I (uint (crc32 (type @ data) 0)) = Inr crc"
    using pack_I_in_range [of "uint (crc32 (type @ data) 0)"] by auto
  have "int (be_value len) = int (length data)" using len by (rule pack_I_value)
  then have v1: "be_value len = length data" by simp
  have "int (be_value crc) = uint (crc32 (type @ data) 0)" using crc by (rule pack_I_value)
  then have v2: "be_value crc = unat (crc32 (type @ data) 0)"
    by (simp only: uint_nat of_nat_eq_iff)
  have t: "pack_4s type = type" using assms(1) by (simp add: pack_4s_def)
  have "write_chunk self type data
          = (self\<lparr>stream := stream self @ len @ type @ data @ crc\<rparr>, None)"
    by (simp add: write_chunk_def len crc crc32_continue t Let_def)
  then show ?thesis using v1 v2 pack_I_length [OF len] pack_I_length [OF crc] by blast
qed

theorem write_chunk_layout_witness:
  "\<exists>len crc.
     write_chunk \<lparr>stream = [137, 80], png_width = 1, png_height = 1, dynamic_filtering = True\<rparr>
         [0x49, 0x44, 0x41, 0x54] [1, 2, 3]
       = (\<lparr>stream = [137, 80], png_width = 1, png_height = 1, dynamic_filtering = True\<rparr>
            \<lparr>stream := stream \<lparr>stream = [137, 80], png_width = 1, png_height = 1,
                               dynamic_filtering = True\<rparr>
               @ len @ [0x49, 0x44, 0x41, 0x54] @ [1, 2, 3] @ crc\<rparr>, None)
     \<and> length len = 4 \<and> be_value len = length [1 :: byte, 2, 3]
     \<and> length crc = 4 \<and> be_value crc = unat (crc32 ([0x49, 0x44, 0x41, 0x54] @ [1, 2, 3]) 0)"
  by (rule write_chunk_layout) simp_all

text \<open>The IEND chunk, with the checksum every PNG file ends with.\<close>

lemma write_chunk_IEND:
  "write_chunk \<lparr>stream = [], png_width = 1, png_height = 1, dynamic_filtering = True\<rparr>
       [0x49, 0x45, 0x4E, 0x44] []
     = (\<lparr>stream = [0, 0, 0, 0, 0x49, 0x45, 0x4E, 0x44, 0xAE, 0x42, 0x60, 0x82],
         png_width = 1, png_height = 1, dynamic_filtering = True\<rparr>, None)"
  by code_simp

text \<open>Beyond the range of the length field \<^verbatim>\<open>pack\<close> raises, and nothing is written.\<close>

lemma write_chunk_too_long:
  "2 ^ 32 \<le> length data \<Longrightarrow> write_chunk self type data = (self, Some StructError)"
proof -
  assume "2 ^ 32 \<le> length data"
  then have "(2 :: int) ^ 32 \<le> int (length data)"
    by (metis of_nat_le_iff of_nat_numeral of_nat_power)
  then show ?thesis by (simp add: write_chunk_def pack_I_def)
qed

subsection \<open>The Paeth filter\<close>

lemma paeth_pr_spec: "paeth_pr a b c = spec_paeth_predictor a b c"
  by (auto simp: paeth_pr_def spec_paeth_predictor_def Let_def)

lemma byte_at_in_range: "i < length line \<Longrightarrow> byte_at line (int i) = Inr (byte_or_zero line (int i))"
  by (simp add: byte_at_def byte_or_zero_def py_getitem_def Let_def bindE_def)

lemma left_of_in_range:
  assumes "i < length line"
  shows "left_of line i = Inr (byte_or_zero line (int i - 3))"
proof (cases "i < 3")
  case True
  then show ?thesis by (simp add: left_of_def byte_or_zero_def)
next
  case False
  then have "int i - 3 = int (i - 3)" by simp
  moreover have "i - 3 < length line" using assms by simp
  ultimately show ?thesis using False byte_at_in_range [of "i - 3" line]
    by (simp add: left_of_def)
qed

lemma store_byte_in_range:
  assumes "length new = Suc n" "i < n"
  shows "store_byte new i v = Inr (new[Suc i := word_of_int (v mod 256)])"
proof -
  have e: "nat (int i + 1) = Suc i" by simp
  have "py_setitem new (int i + 1) (word_of_int (v mod 256))
          = Inr (new[nat (int i + 1) := word_of_int (v mod 256)])"
    using assms by (intro py_setitem_in_range) simp_all
  then show ?thesis by (simp only: store_byte_def e)
qed

lemma filter_fill_loop:
  assumes body: "\<And>i new. i < length scanline \<Longrightarrow> length new = Suc (length scanline)
                   \<Longrightarrow> body (i, scanline ! i) new = Inr (new[Suc i := f i])"
  shows "for_each body (enumerate 0 scanline) (tag # replicate (length scanline) 0)
           = Inr (tag # map f [0..<length scanline])"
proof -
  define n where "n = length scanline"
  let ?xs = "enumerate 0 scanline"
  let ?I = "\<lambda>i new. new = tag # map f [0..<i] @ drop i (replicate n 0)"
  have "\<exists>s'. for_each body ?xs (tag # replicate n 0) = Inr s' \<and> ?I (length ?xs) s'"
  proof (rule for_each_rule [where I = ?I])
    show "?I 0 (tag # replicate n 0)" by simp
  next
    fix i t assume i: "i < length ?xs" and t: "?I i t"
    from i have i': "i < n" by (simp add: n_def)
    then have nth: "?xs ! i = (i, scanline ! i)" by (simp add: nth_enumerate_eq n_def)
    have "length t = Suc (length scanline)" using t i' by (simp add: n_def)
    then have b: "body (i, scanline ! i) t = Inr (t[Suc i := f i])"
      using i' by (intro body) (simp add: n_def)
    have "t[Suc i := f i] = tag # (map f [0..<i] @ drop i (replicate n 0))[i := f i]"
      by (simp add: t)
    also have "(map f [0..<i] @ drop i (replicate n 0))[i := f i]
                 = map f [0..<Suc i] @ drop (Suc i) (replicate n 0)"
      using i' by (intro fill_step) simp
    finally show "\<exists>t'. body (?xs ! i) t = Inr t' \<and> ?I (Suc i) t'" using b nth by simp
  qed
  then show ?thesis by (simp add: n_def)
qed

text \<open>
  C6.  For a scanline and a previous scanline that is absent, empty or at least as
  long as the scanline, the Paeth filter gives the tag byte 4 followed by, for each
  byte \<open>x[i]\<close>, \<open>(x[i] - pr) mod 256\<close>, where \<open>pr\<close> is the first of a, b, c nearest to
  \<open>p = a + b - c\<close>; a is the byte three positions to the left in the line, b the byte
  at the same position in the previous line, c the byte three positions to the left in
  the previous line, each 0 where there is no such byte.
\<close>

theorem paeth_filter_output:
  assumes "case prev_scanline of None \<Rightarrow> True | Some p \<Rightarrow> p = [] \<or> length scanline \<le> length p"
  shows "paeth_filter scanline prev_scanline =
           Inr (4 # map (spec_paeth_byte scanline (case prev_scanline of None \<Rightarrow> [] | Some p \<Rightarrow> p))
                      [0..<length scanline])"
proof -
  define pv where "pv = (case prev_scanline of None \<Rightarrow> [] | Some p \<Rightarrow> p)"
  define n where "n = length scanline"
  let ?body = "\<lambda>(i, x) new_scanline.
           bindE (left_of scanline i) (\<lambda>a.
           bindE (if truthy prev_scanline
                  then bindE (byte_at (the prev_scanline) (int i)) (\<lambda>b.
                       bindE (left_of (the prev_scanline) i) (\<lambda>c. Inr (b, c)))
                  else Inr (0, 0)) (\<lambda>(b, c).
             store_byte new_scanline i (uint x - paeth_pr a b c)))"
  have neighbours: "(if truthy prev_scanline
                  then bindE (byte_at (the prev_scanline) (int i)) (\<lambda>b.
                       bindE (left_of (the prev_scanline) i) (\<lambda>c. Inr (b, c)))
                  else Inr (0, 0)) = Inr (byte_or_zero pv (int i), byte_or_zero pv (int i - 3))"
    if "i < n" for i
  proof (cases "truthy prev_scanline")
    case True
    then obtain p where p: "prev_scanline = Some p" "p \<noteq> []"
      by (auto simp: truthy_def split: option.splits)
    with assms have "length scanline \<le> length p" by simp
    with that have "i < length p" by (simp add: n_def)
    then show ?thesis
      using True p by (simp add: pv_def byte_at_in_range left_of_in_range bindE_def)
  next
    case False
    then have "pv = []" by (auto simp: truthy_def pv_def split: option.splits)
    then show ?thesis using False by (simp add: byte_or_zero_def)
  qed
  have body: "?body (i, scanline ! i) new = Inr (new[Suc i := spec_paeth_byte scanline pv i])"
    if "i < length scanline" "length new = Suc (length scanline)" for i new
  proof -
    have "i < n" using that by (simp add: n_def)
    note nb = neighbours [OF this]
    have "?body (i, scanline ! i) new
            = store_byte new i (uint (scanline ! i)
                - paeth_pr (byte_or_zero scanline (int i - 3)) (byte_or_zero pv (int i))
                    (byte_or_zero pv (int i - 3)))"
      unfolding prod.case nb by (simp add: left_of_in_range [OF that(1)] bindE_def)
    also have "\<dots> = Inr (new[Suc i := spec_paeth_byte scanline pv i])"
      using that by (simp add: store_byte_in_range spec_paeth_byte_def paeth_pr_spec)
    finally show ?thesis .
  qed
  have "py_setitem (replicate (1 + length scanline) (0 :: byte)) 0 4
          = Inr (4 # replicate (length scanline) 0)"
    by (simp add: py_setitem_def)
  then have "paeth_filter scanline prev_scanline
               = for_each ?body (enumerate 0 scanline) (4 # replicate (length scanline) 0)"
    by (simp add: paeth_filter_def bindE_def)
  also have "\<dots> = Inr (4 # map (spec_paeth_byte scanline pv) [0..<length scanline])"
    using body by (rule filter_fill_loop)
  finally show ?thesis by (simp add: pv_def)
qed

theorem paeth_filter_output_witness:
  "paeth_filter [10, 20, 30, 40, 50, 60] (Some [1, 2, 3, 200, 5, 6]) =
     Inr (4 # map (spec_paeth_byte [10, 20, 30, 40, 50, 60]
                     (case Some [1, 2, 3, 200, 5, 6] of None \<Rightarrow> [] | Some p \<Rightarrow> p))
                [0..<length [10 :: byte, 20, 30, 40, 50, 60]])"
  by (rule paeth_filter_output) simp

lemma paeth_filter_example:
  "paeth_filter [10, 20, 30, 40, 50, 60] (Some [1, 2, 3, 200, 5, 6]) = Inr [4, 9, 18, 27, 96, 30, 30]"
  by code_simp

subsection \<open>Which exceptions the filtering step can raise\<close>

lemma bindE_Inl: "bindE m f = Inl e \<longleftrightarrow> m = Inl e \<or> (\<exists>v. m = Inr v \<and> f v = Inl e)"
  by (cases m) (simp_all add: bindE_def)

lemma for_loop_error:
  "for_loop body xs s = (s', Some e) \<Longrightarrow> \<exists>x \<in> set xs. \<exists>t. body x t = Inl e"
proof (induction xs arbitrary: s)
  case Nil
  then show ?case by simp
next
  case (Cons x xs)
  show ?case
  proof (cases "body x s")
    case (Inl e')
    with Cons.prems show ?thesis by auto
  next
    case (Inr t)
    with Cons.prems have "for_loop body xs t = (s', Some e)" by simp
    from Cons.IH [OF this] show ?thesis by auto
  qed
qed

lemma for_each_error:
  "for_each body xs s = Inl e \<Longrightarrow> \<exists>x \<in> set xs. \<exists>t. body x t = Inl e"
  by (auto simp: for_each_def split: prod.splits option.splits dest: for_loop_error)

lemma py_getitem_error: "py_getitem xs i = Inl e \<Longrightarrow> e = IndexError"
  by (auto simp: py_getitem_def Let_def split: if_splits)

lemma py_setitem_error: "py_setitem xs i v = Inl e \<Longrightarrow> e = IndexError"
  by (auto simp: py_setitem_def Let_def split: if_splits)

lemma byte_at_error: "byte_at line i = Inl e \<Longrightarrow> e = IndexError"
  by (auto simp: byte_at_def bindE_Inl dest: py_getitem_error)

lemma left_of_error: "left_of line i = Inl e \<Longrightarrow> e = IndexError"
  by (auto simp: left_of_def split: if_splits dest: byte_at_error)

lemma store_byte_error: "store_byte new i v = Inl e \<Longrightarrow> e = IndexError"
  by (auto simp: store_byte_def dest: py_setitem_error)

lemma sub_filter_error: "sub_filter line prev = Inl e \<Longrightarrow> e = IndexError"
  by (auto simp: sub_filter_def bindE_Inl
      dest!: for_each_error dest: py_setitem_error left_of_error store_byte_error)

lemma up_filter_error: "up_filter line prev = Inl e \<Longrightarrow> e = IndexError"
  by (auto simp: up_filter_def bindE_Inl split: if_splits
      dest!: for_each_error dest: py_setitem_error byte_at_error store_byte_error)

lemma average_filter_error: "average_filter line prev = Inl e \<Longrightarrow> e = IndexError"
  by (auto simp: average_filter_def bindE_Inl Let_def split: if_splits
      dest!: for_each_error dest: py_setitem_error byte_at_error left_of_error store_byte_error)

lemma paeth_filter_error: "paeth_filter line prev = Inl e \<Longrightarrow> e = IndexError"
  by (auto simp: paeth_filter_def bindE_Inl split: if_splits
      dest!: for_each_error dest: py_setitem_error byte_at_error left_of_error store_byte_error)

lemma min_sum_of_abs_diff_error: "min_sum_of_abs_diff line = Inl e \<Longrightarrow> e = TypeError_reduce_empty"
  by (auto simp: min_sum_of_abs_diff_def split: list.splits)

lemma filters_error:
  assumes "flt \<in> set filters" "flt line prev = Inl e"
  shows "e = IndexError"
  using assms
  by (auto simp: filters_def none_filter_def
      dest: sub_filter_error up_filter_error average_filter_error paeth_filter_error)

lemma score_candidates_error:
  "score_candidates line prev = Inl e \<Longrightarrow> e = IndexError \<or> e = TypeError_reduce_empty"
  by (auto simp: score_candidates_def bindE_Inl
      dest!: for_each_error dest: filters_error min_sum_of_abs_diff_error)

lemma select_line_error:
  "select_line line prev = Inl e \<Longrightarrow> e = IndexError \<or> e = TypeError_reduce_empty"
  by (auto simp: select_line_def bindE_Inl Let_def
      dest: score_candidates_error py_getitem_error)

lemma previous_of_error: "previous_of scanlines i = Inl e \<Longrightarrow> e = IndexError"
  by (auto simp: previous_of_def bindE_Inl split: if_splits dest: py_getitem_error)

lemma dynamic_body_error:
  "dynamic_body scanlines i processed = Inl e \<Longrightarrow> e = IndexError \<or> e = TypeError_reduce_empty"
  by (auto simp: dynamic_body_def bindE_Inl
      dest: select_line_error py_getitem_error previous_of_error)

lemma static_body_error: "static_body scanlines i processed = Inl e \<Longrightarrow> e = IndexError"
  by (auto simp: static_body_def bindE_Inl
      dest: paeth_filter_error py_getitem_error previous_of_error)

lemma py_range3_error: "py_range3 a b c = Inl e \<Longrightarrow> e = ValueError_range_step_zero"
  by (auto simp: py_range3_def split: if_splits)

lemma process_lines_size_mismatch:
  "process_lines self img = Inl ValueError_size_mismatch
     \<longleftrightarrow> int (length img) \<noteq> png_width self * png_height self * 3"
proof
  assume a: "process_lines self img = Inl ValueError_size_mismatch"
  show "int (length img) \<noteq> png_width self * png_height self * 3"
  proof
    assume "int (length img) = png_width self * png_height self * 3"
    with a have "bindE (py_range3 0 (png_width self * png_height self * 3) (png_width self * 3))
       (\<lambda>starts.
          let scanlines = map (\<lambda>i. py_slice img i (i + png_width self * 3)) starts
          in if dynamic_filtering self
             then for_each (dynamic_body scanlines) (py_range (png_height self)) []
             else for_each (static_body scanlines) (py_range (png_height self)) [])
       = Inl ValueError_size_mismatch"
      by (simp add: process_lines_def)
    then show False
      by (auto simp: bindE_Inl Let_def split: if_splits
          dest!: for_each_error dest: py_range3_error dynamic_body_error static_body_error)
  qed
next
  assume "int (length img) \<noteq> png_width self * png_height self * 3"
  then show "process_lines self img = Inl ValueError_size_mismatch"
    by (simp add: process_lines_def)
qed

lemma process_image_data_size_mismatch:
  "process_image_data compress self img = Inl ValueError_size_mismatch
     \<longleftrightarrow> int (length img) \<noteq> png_width self * png_height self * 3"
  using process_lines_size_mismatch [of self img]
  by (auto simp: process_image_data_def bindE_Inl)

lemma write_chunk_error: "snd (write_chunk self type data) = Some e \<Longrightarrow> e = StructError"
  by (auto simp: write_chunk_def pack_I_def Let_def split: if_splits)

text \<open>
  C8.  \<^verbatim>\<open>process_image_data\<close>, and with it \<^verbatim>\<open>write_idat\<close>, raises the size-mismatch
  error if and only if the length of the buffer differs from
  \<open>width \<times> height \<times> 3\<close>; the check is the first thing done, and \<^verbatim>\<open>write_idat\<close> then
  leaves the writer and its stream as they were.
\<close>

theorem size_mismatch_iff:
  "(process_image_data compress self img = Inl ValueError_size_mismatch
      \<longleftrightarrow> int (length img) \<noteq> png_width self * png_height self * 3)
   \<and> (snd (write_idat compress self img) = Some ValueError_size_mismatch
      \<longleftrightarrow> int (length img) \<noteq> png_width self * png_height self * 3)
   \<and> (int (length img) \<noteq> png_width self * png_height self * 3
      \<longrightarrow> write_idat compress self img = (self, Some ValueError_size_mismatch))"
proof (intro conjI impI)
  show p: "process_image_data compress self img = Inl ValueError_size_mismatch
      \<longleftrightarrow> int (length img) \<noteq> png_width self * png_height self * 3"
    by (rule process_image_data_size_mismatch)
  show "snd (write_idat compress self img) = Some ValueError_size_mismatch
      \<longleftrightarrow> int (length img) \<noteq> png_width self * png_height self * 3"
  proof (cases "process_image_data compress self img")
    case (Inl e)
    then show ?thesis using p by (auto simp: write_idat_def)
  next
    case (Inr d)
    then have "int (length img) = png_width self * png_height self * 3" using p by auto
    moreover have "snd (write_chunk self [0x49, 0x44, 0x41, 0x54] d) \<noteq> Some ValueError_size_mismatch"
      using write_chunk_error by fastforce
    ultimately show ?thesis using Inr by (simp add: write_idat_def)
  qed
  assume "int (length img) \<noteq> png_width self * png_height self * 3"
  then show "write_idat compress self img = (self, Some ValueError_size_mismatch)"
    using p by (simp add: write_idat_def)
qed

theorem size_mismatch_iff_witness:
  "process_image_data id \<lparr>stream = [137], png_width = 1, png_height = 1, dynamic_filtering = True\<rparr>
       [1, 2] = Inl ValueError_size_mismatch
   \<and> write_idat id \<lparr>stream = [137], png_width = 1, png_height = 1, dynamic_filtering = True\<rparr> [1, 2]
       = (\<lparr>stream = [137], png_width = 1, png_height = 1, dynamic_filtering = True\<rparr>,
          Some ValueError_size_mismatch)
   \<and> process_image_data id \<lparr>stream = [137], png_width = 1, png_height = 1, dynamic_filtering = True\<rparr>
       [1, 2, 3] \<noteq> Inl ValueError_size_mismatch"
  using size_mismatch_iff [of id
      "\<lparr>stream = [137], png_width = 1, png_height = 1, dynamic_filtering = True\<rparr>" "[1, 2]"]
    size_mismatch_iff [of id
      "\<lparr>stream = [137], png_width = 1, png_height = 1, dynamic_filtering = True\<rparr>" "[1, 2, 3]"]
  by simp

text \<open>With a width of 0 the length check passes for the empty buffer and \<^verbatim>\<open>range\<close>
  raises for its step of 0: a \<^verbatim>\<open>ValueError\<close> that is not the size mismatch.\<close>

lemma process_lines_width_0:
  "process_lines \<lparr>stream = [], png_width = 0, png_height = 2, dynamic_filtering = True\<rparr> []
     = Inl ValueError_range_step_zero"
  by (simp add: process_lines_def py_range3_def bindE_def)

subsection \<open>The score of a candidate and the selection\<close>

text \<open>
  C2, at the line \<open>[255, 0, 0]\<close> of a one-pixel image: each of the five candidates is
  given the score 255 by \<^verbatim>\<open>min_sum_of_abs_diff\<close>, where the sum of the absolute values
  of its bytes after the tag, read as signed, is 1.  \<^verbatim>\<open>reduce\<close> has no initial value,
  so the first byte after the tag starts the sum as it is, unsigned.
\<close>

theorem score_first_byte_unsigned:
  "score_candidates [255, 0, 0] None
     = Inr [([0, 255, 0, 0], 255), ([1, 255, 0, 0], 255), ([2, 255, 0, 0], 255),
            ([3, 255, 0, 0], 255), ([4, 255, 0, 0], 255)]
   \<and> map spec_score [[0, 255, 0, 0], [1, 255, 0, 0], [2, 255, 0, 0], [3, 255, 0, 0], [4, 255, 0, 0]]
     = [1, 1, 1, 1, 1]"
  by code_simp

text \<open>
  C7, at the second line of the two-line image \<open>[2, 5, 0, 1, 5, 0]\<close> of width 1: the
  Average candidate is selected, whose bytes have the absolute-value sum 3, while the
  Up candidate has the sum 1.
\<close>

theorem selection_not_minimal:
  "process_lines \<lparr>stream = [], png_width = 1, png_height = 2, dynamic_filtering = True\<rparr>
       [2, 5, 0, 1, 5, 0] = Inr [[0, 2, 5, 0], [3, 0, 3, 0]]
   \<and> select_line [1, 5, 0] (Some [2, 5, 0]) = Inr [3, 0, 3, 0]
   \<and> up_filter [1, 5, 0] (Some [2, 5, 0]) = Inr [2, 255, 0, 0]
   \<and> spec_score [3, 0, 3, 0] = 3
   \<and> spec_score [2, 255, 0, 0] = 1"
  by code_simp

text \<open>The selection itself takes the first candidate of least score, for the score
  that \<^verbatim>\<open>min_sum_of_abs_diff\<close> computes.\<close>

lemma hd_insort_key:
  "hd (insort_key f x ys) = (if ys = [] \<or> f x \<le> f (hd ys) then x else hd ys)"
  by (cases ys) simp_all

lemma hd_sort_key: "xs \<noteq> [] \<Longrightarrow> hd (sort_key f xs) = arg_min_list f xs"
proof (induction xs)
  case Nil
  then show ?case by simp
next
  case (Cons x xs)
  show ?case
  proof (cases xs)
    case Nil
    then show ?thesis by simp
  next
    case (Cons y zs)
    then have ne: "xs \<noteq> []" by simp
    then have "sort_key f xs \<noteq> []" by (metis length_0_conv length_sort)
    moreover have "hd (sort_key f xs) = arg_min_list f xs" using ne by (rule Cons.IH)
    ultimately show ?thesis using Cons by (simp add: hd_insort_key Let_def)
  qed
qed

lemma select_line_first_minimum:
  assumes "select_line line prev = Inr out"
  shows "\<exists>results. score_candidates line prev = Inr results \<and> results \<noteq> []
           \<and> out = fst (arg_min_list snd results)"
proof -
  from assms obtain results where r: "score_candidates line prev = Inr results"
    and g: "bindE (py_getitem (sort_key snd results) 0) (\<lambda>t. Inr (fst t)) = Inr out"
    by (auto simp: select_line_def bindE_def Let_def split: sum.splits)
  from g have ne': "results \<noteq> []"
    by (auto simp: py_getitem_def bindE_def split: if_splits)
  then have ne: "sort_key snd results \<noteq> []" by (metis length_0_conv length_sort)
  from g ne have "out = fst (hd (sort_key snd results))"
    by (auto simp: py_getitem_def bindE_def Let_def hd_conv_nth split: if_splits)
  with r ne' show ?thesis by (auto simp: hd_sort_key)
qed

lemma select_line_zero_example:
  "select_line [0, 0, 0, 0, 0, 0] (Some [0, 0, 0, 0, 0, 0]) = Inr [0, 0, 0, 0, 0, 0, 0]
   \<and> select_line [0, 0, 0, 0, 0, 0] None = Inr [0, 0, 0, 0, 0, 0, 0]"
  by code_simp

end
